theory Spec2Isabelle
  imports Complex_Main
begin

section \<open>The multi-client LoRA training loop (optim/lora.py) and its driver (main.py)\<close>

text \<open>
  The embedding follows \<^verbatim>\<open>train_lora\<close> line by line. Tensors are exact rationals (one
  coordinate stands for the trainable parameters), Python integers are \<open>int\<close>, and every
  call that leaves the two source files (batch sampling and the forward pass, gradient
  clipping, the evaluator, the execution backend) is a field of the record \<open>env\<close>.
  Of these calls the model lets the opening of the shards, the evaluator and the calls
  of the run set-up in \<^verbatim>\<open>main\<close> raise; batch sampling, the forward and backward pass,
  clipping, the optimizer step and the aggregator are taken to return.
  The lists \<^verbatim>\<open>clients\<close>, \<^verbatim>\<open>itr\<close>, \<^verbatim>\<open>substep\<close> and the four lists of
  \<^verbatim>\<open>stats\<close> are all created with \<^verbatim>\<open>num_clients\<close> entries (lines 28 to 33) and are only
  ever read and written at an index below \<^verbatim>\<open>num_clients\<close>, so the model keeps one record
  per client index that holds the entry of each of them at that index.
\<close>

subsection \<open>Data\<close>

datatype error =
    IndexError
  | ZeroDivisionError
  | UnboundLocalError
  | AttributeError
  | NotImplementedError
  | ValueError
  | FileNotFoundError
  | NotADirectoryError
  | IsADirectoryError
  | EvalFailure

record client =
  training :: bool
  grad :: rat
  scheduler :: "nat option"
  itr :: int
  substep :: int
  train_loss :: "rat list"
  val_loss :: "rat list"
  val_pp :: "rat list"
  val_acc :: "rat list"

text \<open>
  \<open>training\<close> is the flag set by \<^verbatim>\<open>model.train()\<close> and cleared by \<^verbatim>\<open>model.eval()\<close>;
  \<open>grad\<close> is the gradient accumulated by \<^verbatim>\<open>backward()\<close> (zero when it is unset);
  \<open>scheduler\<close> is \<open>None\<close> when the third entry of the client triple is Python's None and
  otherwise counts the calls of \<^verbatim>\<open>scheduler.step()\<close>. The remaining fields are the entries
  of the local lists of \<^verbatim>\<open>train_lora\<close> at this client's index.
\<close>

datatype event =
    Forward nat int
  | Backward nat rat
  | ClipGradNorm nat rat
  | OptStep nat rat
  | SchedulerStep nat
  | Aggregate "int list"
  | ZeroGrad nat
  | Eval nat int bool

text \<open>
  The trace records the calls the loop makes, in order: \<open>Forward i s\<close> is the batch drawn
  from the train shard of client \<open>i\<close> and its forward pass at substep count \<open>s\<close>;
  \<open>Backward i g\<close> the backward pass that adds \<open>g\<close>; \<open>ClipGradNorm i c\<close> the clipping call with
  bound \<open>c\<close>; \<open>OptStep i g\<close> the optimizer step that consumes the gradient \<open>g\<close>;
  \<open>Aggregate xs\<close> the call of \<^verbatim>\<open>aggregate\<close>, with the iteration counters as they stand;
  \<open>Eval i r t\<close> the call of the evaluator for client \<open>i\<close> at its counter \<open>r\<close>, where \<open>t\<close> is
  the model's training flag at the moment of the call.
\<close>

record state =
  clients :: "client list"
  loss :: "rat option"
  trace :: "event list"

text \<open>\<open>loss\<close> is the local variable of that name, \<open>None\<close> while it is unbound.\<close>

record config =
  iterations :: int
  acc_steps :: int
  batch_size :: int
  sequence_length :: int
  eval_freq :: int
  trust_freq :: int
  pretraining_rounds :: int
  grad_clip :: rat

record env =
  is_master :: bool
  train_shard :: "nat \<Rightarrow> nat option"
  val_shard :: "nat \<Rightarrow> nat option"
  ref_shard :: "nat \<Rightarrow> nat option"
  batch_loss :: "nat \<Rightarrow> int \<Rightarrow> rat"
  batch_grad :: "nat \<Rightarrow> int \<Rightarrow> rat"
  clip_grad_norm :: "rat \<Rightarrow> rat \<Rightarrow> rat"
  eval_out :: "nat \<Rightarrow> int \<Rightarrow> error + (rat \<times> rat \<times> rat)"

text \<open>
  \<open>is_master\<close> is \<^verbatim>\<open>distributed_backend.is_master_process()\<close>; \<open>train_shard i\<close>,
  \<open>val_shard i\<close> and \<open>ref_shard i\<close> are the files \<^verbatim>\<open>train_i.bin\<close>, \<^verbatim>\<open>test_i.bin\<close> and
  \<^verbatim>\<open>valid_i.bin\<close> of client \<open>i\<close> (lines 40 to 45): \<open>None\<close> when the file is missing, and
  otherwise its size in bytes (a token takes two); \<open>batch_loss i s\<close> and \<open>batch_grad i s\<close> the value of
  \<^verbatim>\<open>outputs['loss']\<close> and its gradient for the batch client \<open>i\<close> draws at substep count
  \<open>s\<close>; \<open>clip_grad_norm g c\<close> the gradient that \<^verbatim>\<open>torch.nn.utils.clip_grad_norm_\<close> leaves
  behind when it finds \<open>g\<close> and is given the bound \<open>c\<close>; \<open>eval_out i r\<close> what \<^verbatim>\<open>eval\<close> does
  for client \<open>i\<close> at counter \<open>r\<close>: it raises, or returns accuracy, loss and perplexity.
\<close>

type_synonym outcome = "(error \<times> state) + state"

text \<open>A raised exception carries the state the mutations have reached: nothing is undone.\<close>

subsection \<open>One local step of one client (lines 61 to 79)\<close>

definition log_event :: "event \<Rightarrow> state \<Rightarrow> state" where
  "log_event e st = st\<lparr>trace := trace st @ [e]\<rparr>"

definition upd_client :: "nat \<Rightarrow> (client \<Rightarrow> client) \<Rightarrow> state \<Rightarrow> state" where
  "upd_client i f st = st\<lparr>clients := (clients st)[i := f (clients st ! i)]\<rparr>"

definition microstep :: "env \<Rightarrow> config \<Rightarrow> nat \<Rightarrow> state \<Rightarrow> state" where
  "microstep env cfg i st =
     (let s = substep (clients st ! i);
          l = batch_loss env i s / of_int (acc_steps cfg);
          g = batch_grad env i s / of_int (acc_steps cfg);
          st1 = log_event (Backward i g) (log_event (Forward i s) st)
      in (upd_client i (\<lambda>c. c\<lparr>grad := grad c + g, substep := substep c + 1\<rparr>) st1)
           \<lparr>loss := Some l\<rparr>)"

fun microsteps :: "env \<Rightarrow> config \<Rightarrow> nat \<Rightarrow> nat \<Rightarrow> state \<Rightarrow> state" where
  "microsteps env cfg i 0 st = st"
| "microsteps env cfg i (Suc k) st = microsteps env cfg i k (microstep env cfg i st)"

definition accumulated :: "env \<Rightarrow> config \<Rightarrow> nat \<Rightarrow> int \<Rightarrow> nat \<Rightarrow> rat" where
  "accumulated env cfg i s k =
     (\<Sum>j<k. batch_grad env i (s + int j) / of_int (acc_steps cfg))"

definition micro_events :: "env \<Rightarrow> config \<Rightarrow> nat \<Rightarrow> int \<Rightarrow> nat \<Rightarrow> event list" where
  "micro_events env cfg i s k =
     concat (map (\<lambda>j. [Forward i (s + int j),
                        Backward i (batch_grad env i (s + int j) / of_int (acc_steps cfg))])
               [0..<k])"

text \<open>
  What \<open>k\<close> microsteps of client \<open>i\<close>, started at substep count \<open>s\<close>, add to the gradient
  and to the trace.
\<close>

definition mean_grad :: "env \<Rightarrow> config \<Rightarrow> nat \<Rightarrow> int \<Rightarrow> rat" where
  "mean_grad env cfg i s =
     (\<Sum>j<nat (acc_steps cfg). batch_grad env i (s + int j)) / of_int (acc_steps cfg)"

text \<open>
  The mean of the gradients of the \<^verbatim>\<open>acc_steps\<close> batches client \<open>i\<close> draws from substep
  count \<open>s\<close> on.
\<close>

definition clip_step :: "env \<Rightarrow> config \<Rightarrow> nat \<Rightarrow> state \<Rightarrow> state" where
  "clip_step env cfg i st =
     (if grad_clip cfg \<noteq> 0
      then upd_client i (\<lambda>c. c\<lparr>grad := clip_grad_norm env (grad c) (grad_clip cfg)\<rparr>)
             (log_event (ClipGradNorm i (grad_clip cfg)) st)
      else st)"

definition opt_step :: "nat \<Rightarrow> state \<Rightarrow> state" where
  "opt_step i st = log_event (OptStep i (grad (clients st ! i))) st"

definition scheduler_step :: "nat \<Rightarrow> state \<Rightarrow> outcome" where
  "scheduler_step i st =
     (case scheduler (clients st ! i) of
        None \<Rightarrow> Inl (AttributeError, st)
      | Some k \<Rightarrow>
          Inr (upd_client i (\<lambda>c. c\<lparr>scheduler := Some (Suc k)\<rparr>) (log_event (SchedulerStep i) st)))"

definition gradient_step :: "env \<Rightarrow> config \<Rightarrow> nat \<Rightarrow> state \<Rightarrow> state" where
  "gradient_step env cfg i st =
     opt_step i (clip_step env cfg i (microsteps env cfg i (nat (acc_steps cfg)) st))"

definition local_step :: "env \<Rightarrow> config \<Rightarrow> nat \<Rightarrow> state \<Rightarrow> outcome" where
  "local_step env cfg i st =
     (case scheduler_step i (gradient_step env cfg i st) of
        Inl e \<Rightarrow> Inl e
      | Inr st' \<Rightarrow> Inr (upd_client i (\<lambda>c. c\<lparr>itr := itr c + 1\<rparr>) st'))"

text \<open>
  \<open>gradient_step\<close> is lines 64 to 77: the accumulation window (\<^verbatim>\<open>range\<close> of a negative
  count is empty, hence \<open>nat\<close>), the guarded clipping and \<^verbatim>\<open>opt.step()\<close>. The call
  \<^verbatim>\<open>scheduler.step()\<close> of line 78 raises AttributeError on None.
\<close>

subsection \<open>The loops over the clients\<close>

fun for_clients :: "(nat \<Rightarrow> state \<Rightarrow> outcome) \<Rightarrow> nat list \<Rightarrow> state \<Rightarrow> outcome" where
  "for_clients body [] st = Inr st"
| "for_clients body (i # js) st =
     (case body i st of Inl e \<Rightarrow> Inl e | Inr st' \<Rightarrow> for_clients body js st')"

subsection \<open>The aggregation trigger (lines 82 and 83)\<close>

definition aggregate_due :: "config \<Rightarrow> int \<Rightarrow> bool" where
  "aggregate_due cfg r \<longleftrightarrow> r mod trust_freq cfg = 0 \<and> r \<ge> pretraining_rounds cfg - 1"

definition aggregate_step :: "config \<Rightarrow> state \<Rightarrow> outcome" where
  "aggregate_step cfg st =
     (if clients st = [] then Inl (IndexError, st)
      else if trust_freq cfg = 0 then Inl (ZeroDivisionError, st)
      else if aggregate_due cfg (itr (last (clients st)))
        then Inr (log_event (Aggregate (map itr (clients st))) st)
      else Inr st)"

text \<open>
  \<^verbatim>\<open>itr[-1]\<close> raises IndexError on an empty list and \<^verbatim>\<open>%\<close> raises ZeroDivisionError for
  a zero \<^verbatim>\<open>trust_freq\<close>, which \<^verbatim>\<open>and\<close> evaluates first; Python's \<^verbatim>\<open>%\<close> on integers is
  \<open>mod\<close> on \<open>int\<close> (the result has the sign of the divisor). The aggregator's effect on the
  parameters is not part of the state; its call is recorded.
\<close>

subsection \<open>Evaluation of one client (lines 89 to 130)\<close>

definition train_len :: "env \<Rightarrow> nat \<Rightarrow> nat" where
  "train_len env i = (case train_shard env i of None \<Rightarrow> 0 | Some b \<Rightarrow> b div 2)"

definition num_substeps_per_epoch :: "env \<Rightarrow> config \<Rightarrow> nat \<Rightarrow> int" where
  "num_substeps_per_epoch env cfg i =
     int (train_len env i) div (batch_size cfg * sequence_length cfg)"

definition eval_due :: "config \<Rightarrow> int \<Rightarrow> bool" where
  "eval_due cfg r \<longleftrightarrow> r mod eval_freq cfg = 0 \<or> r = iterations cfg"

definition record_stats :: "rat \<Rightarrow> rat \<times> rat \<times> rat \<Rightarrow> client \<Rightarrow> client" where
  "record_stats tloss res c =
     (case res of (acc, vl, pp) \<Rightarrow>
        c\<lparr>train_loss := train_loss c @ [tloss], val_loss := val_loss c @ [vl],
          val_pp := val_pp c @ [pp], val_acc := val_acc c @ [acc]\<rparr>)"

definition run_eval :: "env \<Rightarrow> config \<Rightarrow> nat \<Rightarrow> state \<Rightarrow> outcome" where
  "run_eval env cfg i st =
     (if num_substeps_per_epoch env cfg i = 0 then Inl (ZeroDivisionError, st)
      else
        let st1 = upd_client i (\<lambda>c. c\<lparr>training := False\<rparr>) st in
        (case loss st1 of
           None \<Rightarrow> Inl (UnboundLocalError, st1)
         | Some l \<Rightarrow>
             let r = itr (clients st1 ! i);
                 st2 = log_event (Eval i r (training (clients st1 ! i))) st1
             in (case eval_out env i r of
                   Inl e \<Rightarrow> Inl (e, st2)
                 | Inr res \<Rightarrow>
                     Inr (upd_client i (\<lambda>c. c\<lparr>training := True\<rparr>)
                            (upd_client i (record_stats (l * of_int (acc_steps cfg)) res) st2)))))"

definition eval_client :: "env \<Rightarrow> config \<Rightarrow> nat \<Rightarrow> state \<Rightarrow> outcome" where
  "eval_client env cfg i st =
     (let st0 = upd_client i (\<lambda>c. c\<lparr>grad := 0\<rparr>) (log_event (ZeroGrad i) st) in
      if eval_freq cfg = 0 then Inl (ZeroDivisionError, st0)
      else if eval_due cfg (itr (clients st0 ! i)) then
        (if is_master env then run_eval env cfg i st0 else Inr st0)
      else Inr st0)"

text \<open>
  In source order: \<^verbatim>\<open>opt.zero_grad\<close> (line 90); the test of line 92, whose \<^verbatim>\<open>%\<close> raises
  for a zero \<^verbatim>\<open>eval_freq\<close>; on the master process the division of line 94, which raises
  when the train shard is shorter than one batch; \<^verbatim>\<open>model.eval()\<close>; the read of \<^verbatim>\<open>loss\<close>
  (line 97), which raises while the variable is unbound; the evaluator (line 99), which
  may raise; the four appends (lines 108 to 111); \<^verbatim>\<open>model.train()\<close> (line 130). Printing,
  timing and the telemetry calls change nothing of the state and are left out. Lines 131
  to 134 evaluate their test and do nothing else.
\<close>

definition checkpoint_stub :: "config \<Rightarrow> state \<Rightarrow> outcome" where
  "checkpoint_stub cfg st =
     (if clients st = [] then Inl (IndexError, st)
      else if eval_freq cfg = 0 then Inl (ZeroDivisionError, st)
      else Inr st)"

subsection \<open>One round and the while loop (lines 59 to 135)\<close>

definition train_round :: "env \<Rightarrow> config \<Rightarrow> state \<Rightarrow> outcome" where
  "train_round env cfg st =
     (case for_clients (local_step env cfg) [0..<length (clients st)] st of
        Inl e \<Rightarrow> Inl e
      | Inr st1 \<Rightarrow>
          (case aggregate_step cfg st1 of
             Inl e \<Rightarrow> Inl e
           | Inr st2 \<Rightarrow>
               (case for_clients (eval_client env cfg) [0..<length (clients st2)] st2 of
                  Inl e \<Rightarrow> Inl e
                | Inr st3 \<Rightarrow> checkpoint_stub cfg st3)))"

function train_loop :: "env \<Rightarrow> config \<Rightarrow> state \<Rightarrow> outcome" where
  "train_loop env cfg st =
     (if clients st = [] then Inl (IndexError, st)
      else if itr (last (clients st)) < iterations cfg then
        (case train_round env cfg st of
           Inl e \<Rightarrow> Inl e
         | Inr st' \<Rightarrow> train_loop env cfg st')
      else Inr st)"
  by pat_completeness auto

subsection \<open>Set-up and result of \<^verbatim>\<open>train_lora\<close> (lines 28 to 56 and 137)\<close>

definition reset_locals :: "client \<Rightarrow> client" where
  "reset_locals c =
     c\<lparr>itr := 0, substep := 0, train_loss := [], val_loss := [], val_pp := [], val_acc := []\<rparr>"

definition init_state :: "client list \<Rightarrow> state" where
  "init_state cs =
     \<lparr>clients = map (\<lambda>c. (reset_locals c)\<lparr>training := True\<rparr>) cs, loss = None, trace = []\<rparr>"

record stats =
  stats_train_loss :: "rat list list"
  stats_val_loss :: "rat list list"
  stats_val_pp :: "rat list list"
  stats_val_acc :: "rat list list"

definition stats_of :: "state \<Rightarrow> stats" where
  "stats_of st =
     \<lparr>stats_train_loss = map train_loss (clients st), stats_val_loss = map val_loss (clients st),
      stats_val_pp = map val_pp (clients st), stats_val_acc = map val_acc (clients st)\<rparr>"

definition open_shard :: "nat option \<Rightarrow> error + nat" where
  "open_shard f =
     (case f of
        None \<Rightarrow> Inl FileNotFoundError
      | Some b \<Rightarrow> if b = 0 \<or> b mod 2 \<noteq> 0 then Inl ValueError else Inr (b div 2))"

fun load_shards :: "env \<Rightarrow> nat list \<Rightarrow> error option" where
  "load_shards env [] = None"
| "load_shards env (i # js) =
     (case open_shard (train_shard env i) of
        Inl e \<Rightarrow> Some e
      | Inr n \<Rightarrow>
          (case open_shard (val_shard env i) of
             Inl e \<Rightarrow> Some e
           | Inr m \<Rightarrow>
               (case open_shard (ref_shard env i) of
                  Inl e \<Rightarrow> Some e
                | Inr k \<Rightarrow> load_shards env js)))"

definition run_lora :: "env \<Rightarrow> config \<Rightarrow> client list \<Rightarrow> outcome" where
  "run_lora env cfg cs =
     (let st0 = \<lparr>clients = map reset_locals cs, loss = None, trace = []\<rparr> in
      case load_shards env [0..<length cs] of
        Some e \<Rightarrow> Inl (e, st0)
      | None \<Rightarrow>
          if cs \<noteq> [] \<and> batch_size cfg * sequence_length cfg = 0
          then Inl (ZeroDivisionError, st0)
          else train_loop env cfg (init_state cs))"

definition train_lora :: "env \<Rightarrow> config \<Rightarrow> client list \<Rightarrow> (error \<times> state) + stats" where
  "train_lora env cfg cs =
     (case run_lora env cfg cs of Inl e \<Rightarrow> Inl e | Inr st \<Rightarrow> Inr (stats_of st))"

text \<open>
  \<open>run_lora\<close> is \<^verbatim>\<open>train_lora\<close> up to its last line, with the state it ends in;
  \<open>train_lora\<close> returns \<^verbatim>\<open>stats\<close> from it. \<open>open_shard\<close> is
  \<^verbatim>\<open>np.memmap(path, dtype=np.uint16, mode='r')\<close>, which raises FileNotFoundError for a
  missing file and ValueError for an empty one and for one that is not a whole number of
  tokens, and else gives the tokens; \<open>train_len\<close> is \<^verbatim>\<open>len(data['train'][i])\<close>;
  \<open>load_shards\<close> is the loop of lines 39 to 45, which opens the three shards of every
  client in turn before anything else happens. The division of line 48 fails for a zero
  \<^verbatim>\<open>batch_size * sequence_length\<close> as soon as there is one client.

  The state at the top of the loop after \<open>k\<close> completed rounds is a step relation: the
  loop starts in \<open>init_state cs\<close> and goes round once more whenever its guard holds and the
  round raises nothing.
\<close>

inductive loop_top :: "env \<Rightarrow> config \<Rightarrow> client list \<Rightarrow> nat \<Rightarrow> state \<Rightarrow> bool"
  for env :: env and cfg :: config and cs :: "client list" where
  start: "loop_top env cfg cs 0 (init_state cs)"
| next_round:
    "loop_top env cfg cs k st \<Longrightarrow> clients st \<noteq> [] \<Longrightarrow>
     itr (last (clients st)) < iterations cfg \<Longrightarrow> train_round env cfg st = Inr st' \<Longrightarrow>
     loop_top env cfg cs (Suc k) st'"

code_pred loop_top .

subsection \<open>Reading a run\<close>

definition final :: "outcome \<Rightarrow> state" where
  "final r = (case r of Inl (e, st) \<Rightarrow> st | Inr st \<Rightarrow> st)"

definition global_round :: "state \<Rightarrow> int" where
  "global_round st = (case clients st of [] \<Rightarrow> 0 | c # cs \<Rightarrow> itr (last (c # cs)))"

fun is_aggregate :: "event \<Rightarrow> bool" where
  "is_aggregate (Aggregate xs) = True"
| "is_aggregate e = False"

definition aggregate_calls :: "config \<Rightarrow> nat \<Rightarrow> int \<Rightarrow> event list" where
  "aggregate_calls cfg n r =
     map (\<lambda>k. Aggregate (replicate n k)) (filter (aggregate_due cfg) [1..r])"

text \<open>
  \<open>global_round\<close> is \<^verbatim>\<open>itr[-1]\<close> (0 for no client); \<open>aggregate_calls cfg n r\<close> lists one call
  of the aggregator for every round from 1 to \<open>r\<close> at which the trigger of line 82 holds,
  each with all \<open>n\<close> counters at that round.
\<close>

fun in_inference_mode :: "event \<Rightarrow> bool" where
  "in_inference_mode (Eval i r t) = (\<not> t)"
| "in_inference_mode e = True"

subsection \<open>The driver (main.py)\<close>

datatype node = Dir | File stats

type_synonym files = "string \<rightharpoonup> node"

record args =
  train_cfg :: config
  dataset :: string
  model :: string
  scheduler_name :: string
  warmup_percent :: rat
  num_clients :: int
  results_base_folder :: string
  lr_text :: string
  lora_rank :: int
  lora_alpha_text :: string
  lora_dropout_text :: string
  seed :: int

record host =
  backend :: env
  startup :: "error option"
  construct :: "nat \<Rightarrow> error option"
  one_cycle :: "nat \<Rightarrow> error option"
  telemetry :: "error option"

text \<open>
  \<open>train_cfg\<close> holds the fields of \<^verbatim>\<open>args\<close> that \<^verbatim>\<open>train_lora\<close> reads; \<open>lr_text\<close>,
  \<open>lora_alpha_text\<close> and \<open>lora_dropout_text\<close> are the texts Python renders for the
  floating-point values \<^verbatim>\<open>args.lr\<close>, \<^verbatim>\<open>args.lora_alpha\<close> and \<^verbatim>\<open>args.lora_dropout\<close>; the
  arguments are those that line 51 leaves. A file holds the metrics of the summary written
  into it; the arguments echoed beside them are not kept.

  The fields of \<open>host\<close> are the calls of \<^verbatim>\<open>main\<close> that leave the source files and may raise:
  \<open>startup\<close> is lines 47 to 60 (backend, device, seeding), \<open>construct i\<close> the construction
  of the model and the optimizer of client \<open>i\<close> (lines 69 to 93), \<open>one_cycle i\<close> what the
  constructor of the scheduler of client \<open>i\<close> does once it has accepted its arguments,
  \<open>telemetry\<close> lines 110 to 116 (world size and \<^verbatim>\<open>wandb.init\<close>); each is the error raised,
  or \<open>None\<close>.
\<close>

datatype exit = Returned | SystemExit int | Uncaught error

definition get_dataset_from_args :: "args \<Rightarrow> error + string" where
  "get_dataset_from_args a =
     (if dataset a = ''multiwiki''
        then Inr ''/mloscratch/homes/dfan/codes/efficient-collaborative-instruction-tuning/data-multilingual-no-mixture/4/''
      else if dataset a = ''slimpajama''
        then Inr ''/mloscratch/homes/bmessmer/data/efficient-collaborative-instruction-tuning/redpajama-formal/4/''
      else if dataset a = ''agnews''
        then Inr ''/mloscratch/homes/dfan/codes/efficient-collaborative-instruction-tuning/data-agnews-no-mixture-v2/4/''
      else Inl UnboundLocalError)"

fun digits :: "nat \<Rightarrow> string" where
  "digits n =
     (if n < 10 then [''0123456789'' ! n]
      else digits (n div 10) @ [''0123456789'' ! (n mod 10)])"

declare digits.simps [simp del]

definition py_str :: "int \<Rightarrow> string" where
  "py_str i = (if i < 0 then ''-'' @ digits (nat (- i)) else digits (nat i))"

definition get_exp_name :: "args \<Rightarrow> string" where
  "get_exp_name a =
     model a @ ''_lr_'' @ lr_text a
       @ ''_bs_'' @ py_str (batch_size (train_cfg a)) @ ''x'' @ py_str (acc_steps (train_cfg a))
       @ ''_trust_update_every_'' @ py_str (trust_freq (train_cfg a))
       @ ''_lora_rank_'' @ py_str (lora_rank a) @ ''_alpha_'' @ lora_alpha_text a
       @ ''_dropout_'' @ lora_dropout_text a
       @ ''_seed='' @ py_str (seed a)"

text \<open>
  \<open>py_str\<close> is the text of a Python integer in an f-string. The name of the experiment
  holds neither the number of iterations nor the scheduler choice.
\<close>

definition make_scheduler :: "error option \<Rightarrow> args \<Rightarrow> error + nat option" where
  "make_scheduler rest a =
     (if scheduler_name a \<noteq> ''none''
      then (if scheduler_name a \<in> set [''cos'', ''linear'']
            then (if iterations (train_cfg a) \<le> 0 then Inl ValueError
                  else if warmup_percent a < 0 \<or> 1 < warmup_percent a then Inl ValueError
                  else (case rest of Some e \<Rightarrow> Inl e | None \<Rightarrow> Inr (Some 0)))
            else Inl NotImplementedError)
      else Inr None)"

text \<open>
  Lines 95 to 106. The constructor \<^verbatim>\<open>OneCycleLR\<close> of line 97 first checks its arguments:
  it raises ValueError unless \<^verbatim>\<open>total_steps\<close>, here \<^verbatim>\<open>args.iterations\<close>, is positive, and
  unless \<^verbatim>\<open>pct_start\<close>, here \<^verbatim>\<open>args.warmup_percent\<close>, lies between 0 and 1; \<open>rest\<close> is what
  it raises after these checks. A scheduler is the number of steps it has taken.
\<close>

definition new_client :: "nat option \<Rightarrow> client" where
  "new_client s =
     \<lparr>training = True, grad = 0, scheduler = s, itr = 0, substep = 0,
      train_loss = [], val_loss = [], val_pp = [], val_acc = []\<rparr>"

fun client_loop ::
  "(nat \<Rightarrow> error option) \<Rightarrow> (nat \<Rightarrow> error option) \<Rightarrow> args \<Rightarrow> nat \<Rightarrow> error + client list" where
  "client_loop made rest a 0 = Inr []"
| "client_loop made rest a (Suc k) =
     (case client_loop made rest a k of
        Inl e \<Rightarrow> Inl e
      | Inr cs \<Rightarrow>
          (case made k of
             Some e \<Rightarrow> Inl e
           | None \<Rightarrow>
               (case make_scheduler (rest k) a of
                  Inl e \<Rightarrow> Inl e
                | Inr s \<Rightarrow> Inr (cs @ [new_client s]))))"


text \<open>
  \<open>client_loop made rest a k\<close> is the loop of lines 68 to 108 over \<open>k\<close> clients, where
  \<open>made i\<close> is what the construction of the model and the optimizer of client \<open>i\<close> raises
  and \<open>rest i\<close> what the constructor of its scheduler raises after its checks;
  \<open>build_clients\<close> is this loop when all these calls return.
\<close>

definition py_join :: "string \<Rightarrow> string \<Rightarrow> string" where
  "py_join a b =
     (if b \<noteq> [] \<and> hd b = CHR ''/'' then b
      else if a = [] \<or> last a = CHR ''/'' then a @ b
      else a @ ''/'' @ b)"

definition path_exists :: "files \<Rightarrow> string \<Rightarrow> bool" where
  "path_exists fs p = (case fs p of None \<Rightarrow> False | Some n \<Rightarrow> True)"

definition isfile :: "files \<Rightarrow> string \<Rightarrow> bool" where
  "isfile fs p = (case fs p of Some (File c) \<Rightarrow> True | _ \<Rightarrow> False)"

definition ckpt_path :: "args \<Rightarrow> string" where
  "ckpt_path a =
     py_join (py_join (py_join (results_base_folder a) (dataset a)) (model a)) (get_exp_name a)"

definition prologue :: "host \<Rightarrow> args \<Rightarrow> error + client list" where
  "prologue h a =
     (case startup h of
        Some e \<Rightarrow> Inl e
      | None \<Rightarrow>
          (case get_dataset_from_args a of
             Inl e \<Rightarrow> Inl e
           | Inr data_path \<Rightarrow>
               (case client_loop (construct h) (one_cycle h) a (nat (num_clients a)) of
                  Inl e \<Rightarrow> Inl e
                | Inr cs \<Rightarrow>
                    (case telemetry h of
                       Some e \<Rightarrow> Inl e
                     | None \<Rightarrow> Inr cs))))"

definition write_summary :: "args \<Rightarrow> stats \<Rightarrow> files \<Rightarrow> error + files" where
  "write_summary a res fs =
     (case fs (ckpt_path a) of
        None \<Rightarrow> Inl FileNotFoundError
      | Some (File c) \<Rightarrow> Inl NotADirectoryError
      | Some Dir \<Rightarrow>
          (case fs (ckpt_path a @ ''/summary.json'') of
             Some Dir \<Rightarrow> Inl IsADirectoryError
           | _ \<Rightarrow> Inr (fs(ckpt_path a @ ''/summary.json'' \<mapsto> File res))))"

definition train_and_save :: "host \<Rightarrow> args \<Rightarrow> client list \<Rightarrow> files \<Rightarrow> exit \<times> files \<times> event list" where
  "train_and_save h a cs fs =
     (if model a \<noteq> ''lora'' then (Uncaught NotImplementedError, fs, [])
      else
        (case run_lora (backend h) (train_cfg a) cs of
           Inl (e, st) \<Rightarrow> (Uncaught e, fs, trace st)
         | Inr st \<Rightarrow>
             (if is_master (backend h) then
                (case write_summary a (stats_of st) fs of
                   Inl e \<Rightarrow> (Uncaught e, fs, trace st)
                 | Inr fs' \<Rightarrow> (Returned, fs', trace st))
              else (Returned, fs, trace st))))"

definition main :: "host \<Rightarrow> args \<Rightarrow> files \<Rightarrow> exit \<times> files \<times> event list" where
  "main h a fs =
     (case prologue h a of
        Inl e \<Rightarrow> (Uncaught e, fs, [])
      | Inr cs \<Rightarrow>
          if \<not> path_exists fs (ckpt_path a) then
            train_and_save h a cs (if is_master (backend h) then fs(ckpt_path a \<mapsto> Dir) else fs)
          else if isfile fs (py_join (ckpt_path a) ''summary.json'') then
            (SystemExit 0, fs, [])
          else train_and_save h a cs fs)"

text \<open>
  \<open>main\<close> returns how the process ends, the files it leaves and the training events it has
  caused. \<open>prologue\<close> is everything before the test of the checkpoint directory, in source
  order: the start-up calls, the dataset path (line 64; an unknown name leaves the variable
  unbound), the clients (an unknown scheduler choice raises NotImplementedError, the choice
  \<^verbatim>\<open>none\<close> stores None), the telemetry. Then come the test of the checkpoint directory
  (lines 118 to 124; only the master process creates it, and of the directories that
  \<^verbatim>\<open>os.makedirs\<close> creates only this one is kept track of), the choice of the training
  method (lines 126 to 129), the training, and on the master process the write of
  \<^verbatim>\<open>summary.json\<close> (line 142): \<^verbatim>\<open>open(..., 'w')\<close> needs the directory and raises when the
  path of the file is itself a directory. \<open>py_join\<close> is \<^verbatim>\<open>os.path.join\<close> on POSIX paths.
\<close>

subsection \<open>The weights of the Trust Aggregator\<close>

text \<open>
  Modelled from the spec: the function \<^verbatim>\<open>aggregate\<close> of \<^verbatim>\<open>optim/strategies.py\<close> is called by
  \<^verbatim>\<open>train_lora\<close> but is not among the sources. Section 4.2 of the specification: for a fixed
  target client the losses of all source clients on its reference shard are converted into
  non-negative weights by the configured policy, the row of weights, the target's own term
  included, is normalised to sum to 1, and the target's new parameters are the combination
  of all clients' current parameters with that row. Weights and parameters are exact
  rationals.
\<close>

definition trust_row :: "(rat \<Rightarrow> rat) \<Rightarrow> rat list \<Rightarrow> rat list" where
  "trust_row policy losses =
     (let raw = map policy losses in map (\<lambda>w. w / sum_list raw) raw)"

text \<open>
  Modelled from the spec: the new parameter of the target client, combined from the
  snapshot \<open>params\<close> of all clients' parameters with the target's row of weights
  (section 4.2; \<^verbatim>\<open>optim/strategies.py\<close> is not among the sources).
\<close>

definition aggregate_param :: "(rat \<Rightarrow> rat) \<Rightarrow> rat list \<Rightarrow> rat list \<Rightarrow> rat" where
  "aggregate_param policy losses params =
     sum_list (map (\<lambda>(w, p). w * p) (zip (trust_row policy losses) params))"

text \<open>
  Modelled from the spec: the inverse-loss policy, one of the weighting functions section
  4.2 names (the policies of \<^verbatim>\<open>optim/strategies.py\<close> are not among the sources).
\<close>

definition inverse_loss :: "rat \<Rightarrow> rat" where
  "inverse_loss l = 1 / l"

subsection \<open>A small run\<close>

text \<open>
  Two clients, four iterations, one microstep per step, aggregation every second round
  after one pretraining round, evaluation every second round, no clipping; every shard
  has 8 tokens, every batch has loss 3 and gradient 2, and the evaluator returns (1, 2, 7).
\<close>

definition demo_env :: env where
  "demo_env =
     \<lparr>is_master = True, train_shard = (\<lambda>i. Some 16), val_shard = (\<lambda>i. Some 16),
      ref_shard = (\<lambda>i. Some 16), batch_loss = (\<lambda>i s. 3), batch_grad = (\<lambda>i s. 2),
      clip_grad_norm = (\<lambda>g c. g), eval_out = (\<lambda>i r. Inr (1, 2, 7))\<rparr>"

definition demo_cfg :: config where
  "demo_cfg =
     \<lparr>iterations = 4, acc_steps = 1, batch_size = 1, sequence_length = 1, eval_freq = 2,
      trust_freq = 2, pretraining_rounds = 1, grad_clip = 0\<rparr>"

definition demo_clients :: "client list" where
  "demo_clients = [new_client (Some 0), new_client (Some 0)]"

text \<open>The same run as \<^verbatim>\<open>main\<close> sets it up for the scheduler choice \<^verbatim>\<open>none\<close>.\<close>

definition none_args :: args where
  "none_args =
     \<lparr>train_cfg = demo_cfg, dataset = ''agnews'', model = ''lora'', scheduler_name = ''none'',
      warmup_percent = 1 / 5, num_clients = 2, results_base_folder = ''exps'',
      lr_text = ''0.002'', lora_rank = 8, lora_alpha_text = ''32.0'',
      lora_dropout_text = ''0.1'', seed = 0\<rparr>"

text \<open>
  The same arguments with the scheduler choice \<^verbatim>\<open>cos\<close> and no iteration: the name of the
  experiment, and so the checkpoint directory, is the same.
\<close>

definition cos_zero_args :: args where
  "cos_zero_args = none_args\<lparr>train_cfg := demo_cfg\<lparr>iterations := 0\<rparr>, scheduler_name := ''cos''\<rparr>"

text \<open>
  A run with clipping: the bound is 1, every batch has gradient 4, and \<open>torch_clip\<close> is what
  \<^verbatim>\<open>torch.nn.utils.clip_grad_norm_\<close> does to a gradient of one coordinate: it multiplies
  it by \<^verbatim>\<open>max_norm / (total_norm + 1e-6)\<close> when this coefficient is below 1.
\<close>

definition torch_clip :: "rat \<Rightarrow> rat \<Rightarrow> rat" where
  "torch_clip g c =
     (let coef = c / (\<bar>g\<bar> + 1 / 1000000) in if coef < 1 then g * coef else g)"

definition clip_env :: env where
  "clip_env = demo_env\<lparr>batch_grad := (\<lambda>i s. 4), clip_grad_norm := torch_clip\<rparr>"

definition clip_cfg :: config where
  "clip_cfg = demo_cfg\<lparr>grad_clip := 1\<rparr>"

text \<open>A run with two microsteps per step, whose batches have the gradients 1, 3, 5, ...\<close>

definition acc_env :: env where
  "acc_env = demo_env\<lparr>batch_grad := (\<lambda>i s. of_int (2 * s + 1))\<rparr>"

definition acc_cfg :: config where
  "acc_cfg = demo_cfg\<lparr>acc_steps := 2\<rparr>"

text \<open>The small run with an evaluator that raises.\<close>

definition fail_env :: env where
  "fail_env = demo_env\<lparr>eval_out := (\<lambda>i r. Inl EvalFailure)\<rparr>"

text \<open>
  The run with two microsteps per step where the batch that client \<open>i\<close> draws at substep
  count \<open>s\<close> has the loss \<open>10 * i + s\<close>, and its state after the first round.
\<close>

definition loss_env :: env where
  "loss_env = acc_env\<lparr>batch_loss := (\<lambda>i s. 10 * of_nat i + of_int s)\<rparr>"

definition after_first_round :: state where
  "after_first_round = final (train_round loss_env acc_cfg (init_state demo_clients))"

text \<open>
  A host whose calls all return, and a results folder where the run of \<open>none_args\<close> is
  completed.
\<close>

definition demo_host :: host where
  "demo_host =
     \<lparr>backend = demo_env, startup = None, construct = (\<lambda>i. None), one_cycle = (\<lambda>i. None),
      telemetry = None\<rparr>"

definition done_files :: files where
  "done_files =
     [''exps/agnews/lora/lora_lr_0.002_bs_1x1_trust_update_every_2_lora_rank_8_alpha_32.0_dropout_0.1_seed=0''
        \<mapsto> Dir,
      ''exps/agnews/lora/lora_lr_0.002_bs_1x1_trust_update_every_2_lora_rank_8_alpha_32.0_dropout_0.1_seed=0/summary.json''
        \<mapsto> File \<lparr>stats_train_loss = [[3], [3]], stats_val_loss = [[2], [2]],
                  stats_val_pp = [[7], [7]], stats_val_acc = [[1], [1]]\<rparr>]"

section \<open>What the steps change and what they leave alone\<close>

subsection \<open>The primitive updates and the loop over the clients\<close>

lemma clients_log_event [simp]: "clients (log_event e st) = clients st"
  by (simp add: log_event_def)

lemma loss_log_event [simp]: "loss (log_event e st) = loss st"
  by (simp add: log_event_def)

lemma trace_log_event [simp]: "trace (log_event e st) = trace st @ [e]"
  by (simp add: log_event_def)

lemma clients_upd_client:
  "clients (upd_client i f st) = (clients st)[i := f (clients st ! i)]"
  by (simp add: upd_client_def)

lemma length_upd_client [simp]: "length (clients (upd_client i f st)) = length (clients st)"
  by (simp add: upd_client_def)

lemma loss_upd_client [simp]: "loss (upd_client i f st) = loss st"
  by (simp add: upd_client_def)

lemma trace_upd_client [simp]: "trace (upd_client i f st) = trace st"
  by (simp add: upd_client_def)

lemma nth_upd_client:
  "j < length (clients st) \<Longrightarrow>
     clients (upd_client i f st) ! j = (if j = i then f (clients st ! j) else clients st ! j)"
  by (simp add: upd_client_def nth_list_update)

lemma map_upd_client_same:
  assumes "\<And>c. p (f c) = p c"
  shows "map p (clients (upd_client i f st)) = map p (clients st)"
proof -
  have "(map p (clients st))[i := p (clients st ! i)] = map p (clients st)"
    by (metis list_update_id map_update)
  then show ?thesis
    by (simp add: upd_client_def map_update assms)
qed

lemma for_clients_append:
  "for_clients body (xs @ ys) st =
     (case for_clients body xs st of Inl e \<Rightarrow> Inl e | Inr st' \<Rightarrow> for_clients body ys st')"
  by (induction xs arbitrary: st) (auto split: sum.splits)

lemma for_clients_upt_Inr:
  assumes "for_clients body [0..<n] st = Inr st'"
    and "P 0 st"
    and "\<And>k s s'. k < n \<Longrightarrow> P k s \<Longrightarrow> body k s = Inr s' \<Longrightarrow> P (Suc k) s'"
  shows "P n st'"
  using assms
proof (induction n arbitrary: st')
  case 0
  then show ?case by simp
next
  case (Suc n)
  from Suc.prems(1) obtain s where s: "for_clients body [0..<n] st = Inr s"
    and b: "body n s = Inr st'"
    by (auto simp: for_clients_append split: sum.splits)
  have "P n s"
    by (rule Suc.IH [OF s Suc.prems(2)]) (rule Suc.prems(3), auto)
  with b show ?case
    by (auto intro: Suc.prems(3))
qed

lemma for_clients_upt_Inl:
  assumes "for_clients body [0..<n] st = Inl es"
    and "P 0 st"
    and "\<And>k s s'. k < n \<Longrightarrow> P k s \<Longrightarrow> body k s = Inr s' \<Longrightarrow> P (Suc k) s'"
  shows "\<exists>k s. k < n \<and> P k s \<and> body k s = Inl es"
  using assms
proof (induction n)
  case 0
  then show ?case by simp
next
  case (Suc n)
  show ?case
  proof (cases "for_clients body [0..<n] st")
    case (Inl a)
    with Suc.prems(1) have "a = es"
      by (simp add: for_clients_append)
    with Inl have "\<exists>k s. k < n \<and> P k s \<and> body k s = Inl es"
      by (intro Suc.IH Suc.prems(2)) (auto intro: Suc.prems(3))
    then show ?thesis
      by (meson less_Suc_eq)
  next
    case (Inr s)
    have "P n s"
      by (rule for_clients_upt_Inr [where P = P, OF Inr Suc.prems(2)]) (rule Suc.prems(3), auto)
    moreover from Inr Suc.prems(1) have "body n s = Inl es"
      by (auto simp: for_clients_append split: sum.splits)
    ultimately show ?thesis
      by blast
  qed
qed

subsection \<open>The accumulation window\<close>

lemma length_microstep [simp]:
  "length (clients (microstep env cfg i st)) = length (clients st)"
  by (simp add: microstep_def Let_def)

lemma length_microsteps [simp]:
  "length (clients (microsteps env cfg i k st)) = length (clients st)"
  by (induction k arbitrary: st) simp_all

lemma microstep_nth:
  "i < length (clients st) \<Longrightarrow>
     clients (microstep env cfg i st) ! i =
       (clients st ! i)\<lparr>grad := grad (clients st ! i)
            + batch_grad env i (substep (clients st ! i)) / of_int (acc_steps cfg),
          substep := substep (clients st ! i) + 1\<rparr>"
  by (simp add: microstep_def Let_def upd_client_def)

lemma microstep_clients:
  "clients (microstep env cfg i st) =
     (clients st)[i := (clients st ! i)\<lparr>grad := grad (clients st ! i)
            + batch_grad env i (substep (clients st ! i)) / of_int (acc_steps cfg),
          substep := substep (clients st ! i) + 1\<rparr>]"
  by (simp add: microstep_def Let_def upd_client_def)

lemma microsteps_clients:
  "i < length (clients st) \<Longrightarrow>
     clients (microsteps env cfg i k st) =
       (clients st)[i := (clients st ! i)\<lparr>grad := grad (clients st ! i)
            + accumulated env cfg i (substep (clients st ! i)) k,
          substep := substep (clients st ! i) + int k\<rparr>]"
proof (induction k arbitrary: st)
  case 0
  then show ?case by (simp add: accumulated_def)
next
  case (Suc k)
  have "accumulated env cfg i (substep (clients st ! i)) (Suc k) =
      batch_grad env i (substep (clients st ! i)) / of_int (acc_steps cfg)
      + accumulated env cfg i (substep (clients st ! i) + 1) k"
    unfolding accumulated_def sum.lessThan_Suc_shift by (simp add: ac_simps)
  with Suc show ?case
    by (simp add: microstep_nth microstep_clients add.assoc)
qed

lemma microsteps_trace:
  "i < length (clients st) \<Longrightarrow>
     trace (microsteps env cfg i k st) =
       trace st @ micro_events env cfg i (substep (clients st ! i)) k"
proof (induction k arbitrary: st)
  case 0
  then show ?case by (simp add: micro_events_def)
next
  case (Suc k)
  have "micro_events env cfg i (substep (clients st ! i)) (Suc k) =
      [Forward i (substep (clients st ! i)),
       Backward i (batch_grad env i (substep (clients st ! i)) / of_int (acc_steps cfg))]
      @ micro_events env cfg i (substep (clients st ! i) + 1) k"
    by (simp add: micro_events_def upt_conv_Cons map_Suc_upt [symmetric] comp_def ac_simps
        del: upt_Suc)
  with Suc show ?case
    by (simp add: microstep_nth) (simp add: microstep_def Let_def)
qed

lemma microsteps_loss:
  "i < length (clients st) \<Longrightarrow>
     loss (microsteps env cfg i k st) =
       (if k = 0 then loss st
        else Some (batch_loss env i (substep (clients st ! i) + int k - 1) / of_int (acc_steps cfg)))"
proof (induction k arbitrary: st)
  case 0
  then show ?case by simp
next
  case (Suc k)
  then show ?case
    by (simp add: microstep_nth) (simp add: microstep_def Let_def)
qed

subsection \<open>The local step\<close>

lemma substep_grad_commute:
  "(c :: client)\<lparr>substep := a, grad := b\<rparr> = c\<lparr>grad := b, substep := a\<rparr>"
  by (cases c) simp

lemma gradient_step_clients:
  "i < length (clients st) \<Longrightarrow>
     clients (gradient_step env cfg i st) =
       (clients st)[i := (clients st ! i)\<lparr>grad :=
            (if grad_clip cfg \<noteq> 0
             then clip_grad_norm env
                    (grad (clients st ! i)
                      + accumulated env cfg i (substep (clients st ! i)) (nat (acc_steps cfg)))
                    (grad_clip cfg)
             else grad (clients st ! i)
                    + accumulated env cfg i (substep (clients st ! i)) (nat (acc_steps cfg))),
          substep := substep (clients st ! i) + int (nat (acc_steps cfg))\<rparr>]"
  by (simp add: gradient_step_def opt_step_def clip_step_def microsteps_clients upd_client_def
      substep_grad_commute)

lemma gradient_step_trace:
  "i < length (clients st) \<Longrightarrow>
     trace (gradient_step env cfg i st) =
       trace st @ micro_events env cfg i (substep (clients st ! i)) (nat (acc_steps cfg))
         @ (if grad_clip cfg \<noteq> 0 then [ClipGradNorm i (grad_clip cfg)] else [])
         @ [OptStep i
              (if grad_clip cfg \<noteq> 0
               then clip_grad_norm env
                      (grad (clients st ! i)
                        + accumulated env cfg i (substep (clients st ! i)) (nat (acc_steps cfg)))
                      (grad_clip cfg)
               else grad (clients st ! i)
                      + accumulated env cfg i (substep (clients st ! i)) (nat (acc_steps cfg)))]"
  by (simp add: gradient_step_def opt_step_def clip_step_def microsteps_clients microsteps_trace
      upd_client_def)

lemma gradient_step_loss:
  "i < length (clients st) \<Longrightarrow>
     loss (gradient_step env cfg i st) =
       (if acc_steps cfg \<le> 0 then loss st
        else Some (batch_loss env i (substep (clients st ! i) + acc_steps cfg - 1)
                    / of_int (acc_steps cfg)))"
  by (simp add: gradient_step_def opt_step_def clip_step_def microsteps_loss)

lemma length_gradient_step [simp]:
  "length (clients (gradient_step env cfg i st)) = length (clients st)"
  by (simp add: gradient_step_def opt_step_def clip_step_def)

lemma gradient_step_other:
  "i < length (clients st) \<Longrightarrow> j \<noteq> i \<Longrightarrow>
     clients (gradient_step env cfg i st) ! j = clients st ! j"
  by (simp add: gradient_step_clients)

lemma gradient_step_same:
  assumes "i < length (clients st)"
  shows "scheduler (clients (gradient_step env cfg i st) ! i) = scheduler (clients st ! i)"
    and "itr (clients (gradient_step env cfg i st) ! i) = itr (clients st ! i)"
    and "training (clients (gradient_step env cfg i st) ! i) = training (clients st ! i)"
    and "train_loss (clients (gradient_step env cfg i st) ! i) = train_loss (clients st ! i)"
  using assms by (simp_all add: gradient_step_clients)

lemma local_step_eq:
  assumes "i < length (clients st)"
  shows "local_step env cfg i st =
     (case scheduler (clients st ! i) of
        None \<Rightarrow> Inl (AttributeError, gradient_step env cfg i st)
      | Some k \<Rightarrow>
          Inr (upd_client i (\<lambda>c. c\<lparr>scheduler := Some (Suc k), itr := itr c + 1\<rparr>)
                 (log_event (SchedulerStep i) (gradient_step env cfg i st))))"
  using assms
  by (simp add: local_step_def scheduler_step_def gradient_step_same upd_client_def
      split: option.splits)

subsection \<open>The iteration counters\<close>

lemma local_step_Inr:
  assumes "i < length (clients st)" and "local_step env cfg i st = Inr st'"
  obtains k where "scheduler (clients st ! i) = Some k"
    and "st' = upd_client i (\<lambda>c. c\<lparr>scheduler := Some (Suc k), itr := itr c + 1\<rparr>)
                 (log_event (SchedulerStep i) (gradient_step env cfg i st))"
  using assms by (auto simp: local_step_eq split: option.splits)

lemma local_step_Inl:
  assumes "i < length (clients st)" and "local_step env cfg i st = Inl es"
  shows "scheduler (clients st ! i) = None" and "es = (AttributeError, gradient_step env cfg i st)"
  using assms by (auto simp: local_step_eq split: option.splits)

lemma local_step_itr:
  assumes "i < length (clients st)" and "local_step env cfg i st = Inr st'"
  shows "length (clients st') = length (clients st)"
    and "j < length (clients st) \<Longrightarrow>
           itr (clients st' ! j) = itr (clients st ! j) + (if j = i then 1 else 0)"
proof -
  from assms obtain k where st': "st' =
      upd_client i (\<lambda>c. c\<lparr>scheduler := Some (Suc k), itr := itr c + 1\<rparr>)
        (log_event (SchedulerStep i) (gradient_step env cfg i st))"
    by (rule local_step_Inr)
  show "length (clients st') = length (clients st)"
    by (simp add: st')
  show "itr (clients st' ! j) = itr (clients st ! j) + (if j = i then 1 else 0)"
    if "j < length (clients st)"
    using that assms(1) by (simp add: st' nth_upd_client gradient_step_clients nth_list_update)
qed

lemma local_loop_itr:
  assumes "for_clients (local_step env cfg) [0..<length (clients st)] st = Inr st'"
  shows "map itr (clients st') = map (\<lambda>r. r + 1) (map itr (clients st))"
proof -
  let ?n = "length (clients st)"
  let ?P = "\<lambda>k s. length (clients s) = ?n \<and>
      (\<forall>j<?n. itr (clients s ! j) = itr (clients st ! j) + (if j < k then 1 else 0))"
  have "?P ?n st'"
  proof (rule for_clients_upt_Inr [where P = ?P, OF assms])
    show "?P 0 st" by simp
  next
    fix k s s'
    assume k: "k < ?n" and P: "?P k s" and step: "local_step env cfg k s = Inr s'"
    from k P have ks: "k < length (clients s)" by simp
    have "length (clients s') = ?n"
      using local_step_itr(1) [OF ks step] P by simp
    moreover have "itr (clients s' ! j) = itr (clients st ! j) + (if j < Suc k then 1 else 0)"
      if "j < ?n" for j
      using local_step_itr(2) [OF ks step, of j] that P by (auto simp: less_Suc_eq)
    ultimately show "?P (Suc k) s'" by blast
  qed
  then show ?thesis
    by (simp add: list_eq_iff_nth_eq)
qed

lemma final_simps [simp]: "final (Inl (e, st)) = st" "final (Inr st) = st"
  by (simp_all add: final_def)

lemma for_clients_frame:
  assumes "\<And>i s. p (final (body i s)) = p s"
  shows "p (final (for_clients body js st)) = p st"
proof (induction js arbitrary: st)
  case Nil
  then show ?case by simp
next
  case (Cons i js)
  show ?case
  proof (cases "body i st")
    case (Inl es)
    with assms [of i st] show ?thesis by simp
  next
    case (Inr s)
    with assms [of i st] Cons.IH [of s] show ?thesis by simp
  qed
qed

lemma record_stats_simps [simp]:
  "itr (record_stats tloss res c) = itr c"
  "substep (record_stats tloss res c) = substep c"
  "grad (record_stats tloss res c) = grad c"
  "scheduler (record_stats tloss res c) = scheduler c"
  "training (record_stats tloss res c) = training c"
  by (simp_all add: record_stats_def split: prod.splits)

lemma aggregate_step_Inr:
  assumes "aggregate_step cfg st = Inr st'"
  shows "clients st' = clients st" and "loss st' = loss st" and "clients st \<noteq> []"
    and "trust_freq cfg \<noteq> 0"
    and "trace st' = trace st @ (if aggregate_due cfg (itr (last (clients st)))
                                  then [Aggregate (map itr (clients st))] else [])"
  using assms by (auto simp: aggregate_step_def split: if_splits)

lemma aggregate_step_Inl:
  assumes "aggregate_step cfg st = Inl (e, st')"
  shows "st' = st" and "clients st = [] \<or> trust_freq cfg = 0"
  using assms by (auto simp: aggregate_step_def split: if_splits)

lemma checkpoint_stub_final [simp]: "final (checkpoint_stub cfg st) = st"
  by (simp add: checkpoint_stub_def)

lemma eval_client_itr:
  "map itr (clients (final (eval_client env cfg i st))) = map itr (clients st)"
  by (simp add: eval_client_def run_eval_def Let_def map_upd_client_same
      split: option.splits sum.splits)

lemma eval_loop_itr:
  "map itr (clients (final (for_clients (eval_client env cfg) js st))) = map itr (clients st)"
  by (rule for_clients_frame) (rule eval_client_itr)

lemma train_round_itr:
  assumes "train_round env cfg st = Inr st'"
  shows "map itr (clients st') = map (\<lambda>r. r + 1) (map itr (clients st))"
proof -
  from assms obtain st1 st2 st3
    where 1: "for_clients (local_step env cfg) [0..<length (clients st)] st = Inr st1"
      and 2: "aggregate_step cfg st1 = Inr st2"
      and 3: "for_clients (eval_client env cfg) [0..<length (clients st2)] st2 = Inr st3"
      and 4: "checkpoint_stub cfg st3 = Inr st'"
    by (auto simp: train_round_def split: sum.splits)
  from 4 have "st' = st3"
    using checkpoint_stub_final [of cfg st3] by simp
  moreover from 3 have "map itr (clients st3) = map itr (clients st2)"
    using eval_loop_itr [of env cfg "[0..<length (clients st2)]" st2] by simp
  moreover from 2 have "clients st2 = clients st1"
    by (rule aggregate_step_Inr)
  ultimately show ?thesis
    using local_loop_itr [OF 1] by simp
qed

lemma train_round_last:
  assumes "train_round env cfg st = Inr st'" and "clients st \<noteq> []"
  shows "clients st' \<noteq> []" and "itr (last (clients st')) = itr (last (clients st)) + 1"
proof -
  from train_round_itr [OF assms(1)] have len: "length (clients st') = length (clients st)"
    by (metis length_map)
  with assms(2) show ne: "clients st' \<noteq> []" by auto
  have "itr (last (clients st')) = last (map itr (clients st'))"
    using ne by (simp add: last_map)
  also have "\<dots> = last (map (\<lambda>r. r + 1) (map itr (clients st)))"
    by (simp only: train_round_itr [OF assms(1)])
  also have "\<dots> = itr (last (clients st)) + 1"
    using assms(2) by (simp add: last_map)
  finally show "itr (last (clients st')) = itr (last (clients st)) + 1" .
qed

termination train_loop
proof (relation "measure (\<lambda>(env, cfg, st). nat (iterations cfg - itr (last (clients st))))")
  show "wf (measure (\<lambda>(env, cfg, st). nat (iterations cfg - itr (last (clients st)))))"
    by simp
next
  fix env :: env and cfg :: config and st st' :: state
  assume "clients st \<noteq> []" and "itr (last (clients st)) < iterations cfg"
    and "train_round env cfg st = Inr st'"
  then show "((env, cfg, st'), (env, cfg, st))
      \<in> measure (\<lambda>(env, cfg, st). nat (iterations cfg - itr (last (clients st))))"
    using train_round_last(2) [of env cfg st st'] by simp
qed

declare train_loop.simps [simp del]

subsection \<open>Calls of the aggregator in the trace\<close>

lemma micro_events_no_aggregate [simp]:
  "filter is_aggregate (micro_events env cfg i s k) = []"
  by (induction k) (simp_all add: micro_events_def)

lemma gradient_step_aggregate:
  "i < length (clients st) \<Longrightarrow>
     filter is_aggregate (trace (gradient_step env cfg i st)) = filter is_aggregate (trace st)"
  by (simp add: gradient_step_trace)

lemma local_step_aggregate:
  "i < length (clients st) \<Longrightarrow>
     filter is_aggregate (trace (final (local_step env cfg i st))) = filter is_aggregate (trace st)"
  by (simp add: local_step_eq gradient_step_aggregate split: option.splits)

lemma eval_client_aggregate:
  "filter is_aggregate (trace (final (eval_client env cfg i st))) = filter is_aggregate (trace st)"
  by (simp add: eval_client_def run_eval_def Let_def split: option.splits sum.splits)

lemma eval_loop_aggregate:
  "filter is_aggregate (trace (final (for_clients (eval_client env cfg) js st)))
     = filter is_aggregate (trace st)"
  by (rule for_clients_frame) (rule eval_client_aggregate)

lemma local_step_Inl_itr:
  assumes "i < length (clients st)" and "local_step env cfg i st = Inl (e, st')"
  shows "map itr (clients st') = map itr (clients st)"
proof -
  from local_step_Inl(2) [OF assms] have "st' = gradient_step env cfg i st" by simp
  then show ?thesis
    using assms(1) by (simp add: gradient_step_clients map_update list_update_same_conv)
qed

text \<open>The loop of the local steps, however it ends.\<close>

lemma local_loop_final:
  assumes n: "n = length (clients st)"
    and run: "for_clients (local_step env cfg) [0..<n] st = r"
  shows "filter is_aggregate (trace (final r)) = filter is_aggregate (trace st)"
    and "length (clients (final r)) = n"
    and "isl r \<Longrightarrow> n \<noteq> 0 \<and> itr (last (clients (final r))) = itr (last (clients st))"
proof -
  define P where "P = (\<lambda>k (s :: state). length (clients s) = n
      \<and> filter is_aggregate (trace s) = filter is_aggregate (trace st)
      \<and> (\<forall>j<n. itr (clients s ! j) = itr (clients st ! j) + (if j < k then 1 else 0)))"
  have P0: "P 0 st"
    using n by (simp add: P_def)
  have step: "P (Suc k) s'" if k: "k < n" and Pk: "P k s" and ok: "local_step env cfg k s = Inr s'"
    for k s s'
  proof -
    from k Pk have ks: "k < length (clients s)"
      by (simp add: P_def)
    have "filter is_aggregate (trace (final (local_step env cfg k s))) = filter is_aggregate (trace s)"
      by (rule local_step_aggregate [OF ks])
    then have a: "filter is_aggregate (trace s') = filter is_aggregate (trace st)"
      using ok Pk by (simp add: P_def)
    have b: "length (clients s') = n"
      using local_step_itr(1) [OF ks ok] Pk by (simp add: P_def)
    have c: "itr (clients s' ! j) = itr (clients st ! j) + (if j < Suc k then 1 else 0)"
      if "j < n" for j
    proof -
      from that Pk have "j < length (clients s)"
        by (simp add: P_def)
      from local_step_itr(2) [OF ks ok this]
      have "itr (clients s' ! j) = itr (clients s ! j) + (if j = k then 1 else 0)" .
      moreover from that Pk
      have "itr (clients s ! j) = itr (clients st ! j) + (if j < k then 1 else 0)"
        by (simp add: P_def)
      ultimately show ?thesis
        by (simp add: less_Suc_eq)
    qed
    from a b c show ?thesis
      by (simp add: P_def)
  qed
  have main: "filter is_aggregate (trace (final r)) = filter is_aggregate (trace st)
      \<and> length (clients (final r)) = n
      \<and> (isl r \<longrightarrow> n \<noteq> 0 \<and> itr (last (clients (final r))) = itr (last (clients st)))"
  proof (cases r)
    case (Inr s')
    have "P n s'"
    proof (rule for_clients_upt_Inr [where P = P and body = "local_step env cfg"])
      show "for_clients (local_step env cfg) [0..<n] st = Inr s'"
        using run Inr by simp
      show "P 0 st" by (rule P0)
      show "P (Suc k) s2" if "k < n" "P k s1" "local_step env cfg k s1 = Inr s2" for k s1 s2
        using that by (rule step)
    qed
    then have "filter is_aggregate (trace s') = filter is_aggregate (trace st)"
      and "length (clients s') = n"
      by (simp_all add: P_def)
    with Inr show ?thesis
      by simp
  next
    case (Inl es)
    obtain e s' where es: "es = (e, s')" by (cases es)
    have "\<exists>k s. k < n \<and> P k s \<and> local_step env cfg k s = Inl es"
    proof (rule for_clients_upt_Inl [where P = P and body = "local_step env cfg"])
      show "for_clients (local_step env cfg) [0..<n] st = Inl es"
        using run Inl by simp
      show "P 0 st" by (rule P0)
      show "P (Suc k) s2" if "k < n" "P k s1" "local_step env cfg k s1 = Inr s2" for k s1 s2
        using that by (rule step)
    qed
    then obtain k s where k: "k < n" and Pk: "P k s"
      and fail: "local_step env cfg k s = Inl (e, s')"
      using es by blast
    from k Pk have ks: "k < length (clients s)"
      by (simp add: P_def)
    have "filter is_aggregate (trace (final (local_step env cfg k s))) = filter is_aggregate (trace s)"
      by (rule local_step_aggregate [OF ks])
    then have agg: "filter is_aggregate (trace s') = filter is_aggregate (trace st)"
      using fail Pk by (simp add: P_def)
    have its: "map itr (clients s') = map itr (clients s)"
      by (rule local_step_Inl_itr [OF ks fail])
    have lens: "length (clients s) = n"
      using Pk by (simp add: P_def)
    have len: "length (clients s') = n"
      using its lens by (metis length_map)
    have ne: "clients s' \<noteq> []" "clients s \<noteq> []" "clients st \<noteq> []"
      using len lens n k by auto
    have "itr (last (clients s')) = last (map itr (clients s'))"
      using ne(1) by (simp add: last_map)
    also have "\<dots> = last (map itr (clients s))"
      by (simp only: its)
    also have "\<dots> = itr (last (clients s))"
      using ne(2) by (simp add: last_map)
    also have "\<dots> = itr (clients s ! (n - 1))"
      using ne(2) lens by (simp add: last_conv_nth)
    also have "\<dots> = itr (clients st ! (n - 1))"
      using Pk k by (simp add: P_def)
    also have "\<dots> = itr (last (clients st))"
      using ne(3) n by (simp add: last_conv_nth)
    finally have "itr (last (clients s')) = itr (last (clients st))" .
    with agg len k Inl es show ?thesis
      by simp
  qed
  from main show "filter is_aggregate (trace (final r)) = filter is_aggregate (trace st)"
    and "length (clients (final r)) = n"
    and "isl r \<Longrightarrow> n \<noteq> 0 \<and> itr (last (clients (final r))) = itr (last (clients st))"
    by blast+
qed

subsection \<open>The while loop\<close>

lemma train_loop_final_rule:
  assumes init: "I st"
    and step: "\<And>s s'. I s \<Longrightarrow> clients s \<noteq> [] \<Longrightarrow> itr (last (clients s)) < iterations cfg \<Longrightarrow>
        train_round env cfg s = Inr s' \<Longrightarrow> I s'"
    and raised: "\<And>s e s'. I s \<Longrightarrow> clients s \<noteq> [] \<Longrightarrow> itr (last (clients s)) < iterations cfg \<Longrightarrow>
        train_round env cfg s = Inl (e, s') \<Longrightarrow> Q s'"
    and stop: "\<And>s. I s \<Longrightarrow> Q s"
  shows "Q (final (train_loop env cfg st))"
  using init
proof (induction "nat (iterations cfg - itr (last (clients st)))" arbitrary: st rule: less_induct)
  case less
  show ?case
  proof (cases "clients st \<noteq> [] \<and> itr (last (clients st)) < iterations cfg")
    case False
    then have "final (train_loop env cfg st) = st"
      by (subst train_loop.simps) auto
    with stop [OF less.prems] show ?thesis by simp
  next
    case True
    show ?thesis
    proof (cases "train_round env cfg st")
      case (Inl es)
      obtain e s' where es: "es = (e, s')" by (cases es)
      from True Inl es have "final (train_loop env cfg st) = s'"
        by (subst train_loop.simps) simp
      moreover have "Q s'"
        using raised [OF less.prems _ _ Inl [unfolded es]] True by simp
      ultimately show ?thesis by simp
    next
      case (Inr s')
      from True Inr have eq: "train_loop env cfg st = train_loop env cfg s'"
        by (subst train_loop.simps) simp
      have "itr (last (clients s')) = itr (last (clients st)) + 1"
        using train_round_last(2) [OF Inr] True by simp
      with True have "nat (iterations cfg - itr (last (clients s')))
          < nat (iterations cfg - itr (last (clients st)))"
        by simp
      moreover have "I s'"
        using step [OF less.prems _ _ Inr] True by simp
      ultimately have "Q (final (train_loop env cfg s'))"
        by (rule less.hyps)
      with eq show ?thesis by simp
    qed
  qed
qed

lemma train_loop_Inr_rule:
  assumes run: "train_loop env cfg st = Inr st'"
    and init: "I st"
    and step: "\<And>s s'. I s \<Longrightarrow> clients s \<noteq> [] \<Longrightarrow> itr (last (clients s)) < iterations cfg \<Longrightarrow>
        train_round env cfg s = Inr s' \<Longrightarrow> I s'"
  shows "I st' \<and> clients st' \<noteq> [] \<and> iterations cfg \<le> itr (last (clients st'))"
  using run init
proof (induction "nat (iterations cfg - itr (last (clients st)))" arbitrary: st rule: less_induct)
  case less
  show ?case
  proof (cases "clients st \<noteq> [] \<and> itr (last (clients st)) < iterations cfg")
    case False
    with less.prems(1) have "st' = st \<and> clients st \<noteq> []"
      by (subst (asm) train_loop.simps) (auto split: if_splits)
    with False less.prems(2) show ?thesis by auto
  next
    case True
    with less.prems(1) obtain s' where r: "train_round env cfg st = Inr s'"
      and eq: "train_loop env cfg s' = Inr st'"
      by (subst (asm) train_loop.simps) (auto split: sum.splits)
    have "itr (last (clients s')) = itr (last (clients st)) + 1"
      using train_round_last(2) [OF r] True by simp
    with True have m: "nat (iterations cfg - itr (last (clients s')))
        < nat (iterations cfg - itr (last (clients st)))"
      by simp
    have "I s'"
      using step [OF less.prems(2) _ _ r] True by simp
    with m eq show ?thesis
      by (rule less.hyps)
  qed
qed

subsection \<open>Evaluating the small run, and the initial state\<close>

lemmas step_defs =
  train_round_def local_step_def gradient_step_def scheduler_step_def opt_step_def clip_step_def
  microstep_def aggregate_step_def aggregate_due_def eval_client_def eval_due_def run_eval_def
  num_substeps_per_epoch_def record_stats_def checkpoint_stub_def upd_client_def log_event_def
  train_len_def init_state_def reset_locals_def new_client_def Let_def

lemmas demo_defs = demo_env_def demo_cfg_def demo_clients_def

lemma demo_first_round:
  "\<exists>st. train_round demo_env demo_cfg (init_state demo_clients) = Inr st"
  by (simp add: step_defs demo_defs)

lemma init_state_itr: "map itr (clients (init_state cs)) = replicate (length cs) 0"
  by (simp add: init_state_def reset_locals_def comp_def map_replicate_const)

subsection \<open>The aggregator is called at the rounds of the trigger\<close>

lemma aggregate_calls_Suc:
  "0 \<le> r \<Longrightarrow>
     aggregate_calls cfg n (r + 1) =
       aggregate_calls cfg n r
         @ (if aggregate_due cfg (r + 1) then [Aggregate (replicate n (r + 1))] else [])"
  by (simp add: aggregate_calls_def upto_rec2)

lemma global_round_replicate:
  assumes "n \<noteq> 0" and "map itr (clients s) = replicate n r"
  shows "global_round s = r"
proof -
  from assms have ne: "clients s \<noteq> []"
    by (metis length_map length_replicate list.size(3))
  then have "global_round s = itr (last (clients s))"
    by (cases "clients s") (simp_all add: global_round_def)
  also have "\<dots> = last (map itr (clients s))"
    using ne by (simp add: last_map)
  also have "\<dots> = r"
    using assms by simp
  finally show ?thesis .
qed

lemma train_round_calls:
  assumes n: "n \<noteq> 0"
    and its: "map itr (clients s) = replicate n r"
    and r: "0 \<le> r"
    and calls: "filter is_aggregate (trace s) = aggregate_calls cfg n r"
  shows "filter is_aggregate (trace (final (train_round env cfg s)))
      = aggregate_calls cfg n (global_round (final (train_round env cfg s)))"
proof -
  have len: "length (clients s) = n"
    using its by (metis length_map length_replicate)
  have last_s: "itr (last (clients s)) = r"
    using global_round_replicate [OF n its] len n
    by (cases "clients s") (simp_all add: global_round_def)
  show ?thesis
  proof (cases "for_clients (local_step env cfg) [0..<length (clients s)] s")
    case (Inl es)
    obtain e s1 where es: "es = (e, s1)" by (cases es)
    from Inl es have fin: "final (train_round env cfg s) = s1"
      by (simp add: train_round_def)
    from local_loop_final [OF len [symmetric], of env cfg "Inl (e, s1)"] Inl es len
    have a: "filter is_aggregate (trace s1) = filter is_aggregate (trace s)"
      and l: "length (clients s1) = n"
      and i: "itr (last (clients s1)) = itr (last (clients s))"
      by simp_all
    from l n have "global_round s1 = itr (last (clients s1))"
      by (cases "clients s1") (simp_all add: global_round_def)
    with a i last_s calls fin show ?thesis by simp
  next
    case (Inr s1)
    have its1: "map itr (clients s1) = replicate n (r + 1)"
      using local_loop_itr [OF Inr] its by simp
    from local_loop_final(1) [OF len [symmetric], of env cfg "Inr s1"] Inr len
    have a1: "filter is_aggregate (trace s1) = aggregate_calls cfg n r"
      using calls by simp
    have g1: "global_round s1 = r + 1"
      by (rule global_round_replicate [OF n its1])
    have ne1: "clients s1 \<noteq> []"
      using its1 n by (metis length_map length_replicate list.size(3))
    have last1: "itr (last (clients s1)) = r + 1"
      using g1 ne1 by (cases "clients s1") (simp_all add: global_round_def)
    show ?thesis
    proof (cases "aggregate_step cfg s1")
      case (Inl es)
      obtain e s2 where es: "es = (e, s2)" by (cases es)
      from Inl es aggregate_step_Inl [of cfg s1 e s2] ne1
      have s2: "s2 = s1" and f0: "trust_freq cfg = 0" by simp_all
      from f0 r have "\<not> aggregate_due cfg (r + 1)"
        by (simp add: aggregate_due_def)
      then have "aggregate_calls cfg n (r + 1) = aggregate_calls cfg n r"
        using aggregate_calls_Suc [OF r, of cfg n] by simp
      moreover from Inr Inl es s2 have "final (train_round env cfg s) = s1"
        by (simp add: train_round_def)
      ultimately show ?thesis
        using a1 g1 by simp
    next
      case s2: (Inr s2)
      from aggregate_step_Inr [OF s2] last1 its1 a1
      have c2: "clients s2 = clients s1"
        and a2: "filter is_aggregate (trace s2) = aggregate_calls cfg n (r + 1)"
        by (simp_all add: aggregate_calls_Suc [OF r])
      define r3 where "r3 = for_clients (eval_client env cfg) [0..<length (clients s2)] s2"
      have fin: "final (train_round env cfg s) = final r3"
        using Inr s2 by (cases r3) (auto simp: train_round_def r3_def)
      have "map itr (clients (final r3)) = replicate n (r + 1)"
        unfolding r3_def using eval_loop_itr [of env cfg _ s2] c2 its1 by simp
      then have "global_round (final r3) = r + 1"
        by (rule global_round_replicate [OF n])
      moreover have "filter is_aggregate (trace (final r3)) = aggregate_calls cfg n (r + 1)"
        unfolding r3_def using eval_loop_aggregate [of env cfg _ s2] a2 by simp
      ultimately show ?thesis
        using fin by simp
    qed
  qed
qed

lemma train_loop_calls:
  assumes "cs \<noteq> []"
  shows "filter is_aggregate (trace (final (train_loop env cfg (init_state cs))))
     = aggregate_calls cfg (length cs) (global_round (final (train_loop env cfg (init_state cs))))"
proof -
  define n where "n = length cs"
  define I where "I = (\<lambda>s :: state. \<exists>r\<ge>0. map itr (clients s) = replicate n r
      \<and> filter is_aggregate (trace s) = aggregate_calls cfg n r)"
  define Q where "Q = (\<lambda>s :: state.
      filter is_aggregate (trace s) = aggregate_calls cfg n (global_round s))"
  have n: "n \<noteq> 0" using assms by (simp add: n_def)
  have "Q (final (train_loop env cfg (init_state cs)))"
  proof (rule train_loop_final_rule [where I = I and Q = Q])
    show "I (init_state cs)"
      unfolding I_def n_def
      by (rule exI [of _ 0]) (simp add: init_state_itr, simp add: init_state_def aggregate_calls_def)
  next
    fix s s' assume "I s" and ok: "train_round env cfg s = Inr s'"
    then obtain r where r: "0 \<le> r" and its: "map itr (clients s) = replicate n r"
      and calls: "filter is_aggregate (trace s) = aggregate_calls cfg n r"
      by (auto simp: I_def)
    have its': "map itr (clients s') = replicate n (r + 1)"
      using train_round_itr [OF ok] its by simp
    have "global_round s' = r + 1"
      by (rule global_round_replicate [OF n its'])
    with train_round_calls [OF n its r calls, of env] ok
    have "filter is_aggregate (trace s') = aggregate_calls cfg n (r + 1)"
      by simp
    with r its' show "I s'"
      unfolding I_def by (intro exI [of _ "r + 1"]) simp
  next
    fix s e s' assume "I s" and bad: "train_round env cfg s = Inl (e, s')"
    then obtain r where r: "0 \<le> r" and its: "map itr (clients s) = replicate n r"
      and calls: "filter is_aggregate (trace s) = aggregate_calls cfg n r"
      by (auto simp: I_def)
    from train_round_calls [OF n its r calls, of env] bad show "Q s'"
      by (simp add: Q_def)
  next
    fix s assume "I s"
    then obtain r where its: "map itr (clients s) = replicate n r"
      and calls: "filter is_aggregate (trace s) = aggregate_calls cfg n r"
      by (auto simp: I_def)
    with global_round_replicate [OF n its] show "Q s"
      by (simp add: Q_def)
  qed
  then show ?thesis
    by (simp add: Q_def n_def)
qed

lemma last_itr_replicate:
  assumes "clients s \<noteq> []" and "map itr (clients s) = replicate n r"
  shows "itr (last (clients s)) = r" and "n \<noteq> 0"
proof -
  from assms have "length (clients s) = n"
    using length_map [of itr "clients s"] by simp
  with assms(1) show n: "n \<noteq> 0" by auto
  have "itr (last (clients s)) = last (map itr (clients s))"
    using assms(1) by (simp add: last_map)
  with assms(2) n show "itr (last (clients s)) = r" by simp
qed

lemma demo_returns:
  "train_lora demo_env demo_cfg demo_clients =
     Inr \<lparr>stats_train_loss = [[3, 3], [3, 3]], stats_val_loss = [[2, 2], [2, 2]],
          stats_val_pp = [[7, 7], [7, 7]], stats_val_acc = [[1, 1], [1, 1]]\<rparr>"
  by code_simp

subsection \<open>A client without a scheduler\<close>




subsection \<open>The gradient the optimizer consumes\<close>

lemma accumulated_mean:
  "accumulated env cfg i s (nat (acc_steps cfg)) = mean_grad env cfg i s"
  by (simp add: accumulated_def mean_grad_def sum_divide_distrib)

lemma gradient_step_after_window:
  assumes "i < length (clients st)"
  shows "trace (gradient_step env cfg i st) =
      trace (microsteps env cfg i (nat (acc_steps cfg)) st)
        @ (if grad_clip cfg = 0
           then [OptStep i (grad (clients (microsteps env cfg i (nat (acc_steps cfg)) st) ! i))]
           else [ClipGradNorm i (grad_clip cfg),
                 OptStep i (clip_grad_norm env
                   (grad (clients (microsteps env cfg i (nat (acc_steps cfg)) st) ! i))
                   (grad_clip cfg))])"
    and "grad (clients (gradient_step env cfg i st) ! i) =
      (if grad_clip cfg = 0
       then grad (clients (microsteps env cfg i (nat (acc_steps cfg)) st) ! i)
       else clip_grad_norm env
              (grad (clients (microsteps env cfg i (nat (acc_steps cfg)) st) ! i))
              (grad_clip cfg))"
  using assms
  by (simp_all add: gradient_step_def opt_step_def clip_step_def nth_upd_client)

subsection \<open>Properties kept by every step of a round\<close>

lemma for_clients_final_rule:
  assumes "P st"
    and "\<And>i s. i \<in> set js \<Longrightarrow> P s \<Longrightarrow> P (final (body i s))"
  shows "P (final (for_clients body js st))"
  using assms
proof (induction js arbitrary: st)
  case Nil
  then show ?case by simp
next
  case (Cons i js)
  have step: "P (final (body i st))"
    by (rule Cons.prems(2)) (simp_all add: Cons.prems(1))
  show ?case
  proof (cases "body i st")
    case (Inl es)
    with step show ?thesis by simp
  next
    case (Inr s)
    with step have "P s" by simp
    then have "P (final (for_clients body js s))"
      by (rule Cons.IH) (rule Cons.prems(2), simp_all)
    with Inr show ?thesis by simp
  qed
qed

lemma for_clients_Inr_rule:
  assumes "for_clients body js st = Inr st'"
    and "P st"
    and "\<And>i s s'. i \<in> set js \<Longrightarrow> P s \<Longrightarrow> body i s = Inr s' \<Longrightarrow> P s'"
  shows "P st'"
  using assms
proof (induction js arbitrary: st)
  case Nil
  then show ?case by simp
next
  case (Cons i js)
  from Cons.prems(1) obtain s where s: "body i st = Inr s"
    and rest: "for_clients body js s = Inr st'"
    by (auto split: sum.splits)
  have "P s"
    by (rule Cons.prems(3) [OF _ Cons.prems(2) s]) simp
  with rest show ?case
    by (rule Cons.IH) (rule Cons.prems(3), simp_all)
qed

lemma train_round_final_rule:
  assumes init: "P s"
    and len: "\<And>s. P s \<Longrightarrow> length (clients s) = n"
    and local: "\<And>i s. i < n \<Longrightarrow> P s \<Longrightarrow> P (final (local_step env cfg i s))"
    and agg: "\<And>s. P s \<Longrightarrow> P (log_event (Aggregate (map itr (clients s))) s)"
    and ev: "\<And>i s. i < n \<Longrightarrow> P s \<Longrightarrow> P (final (eval_client env cfg i s))"
  shows "P (final (train_round env cfg s))"
proof -
  define r1 where "r1 = for_clients (local_step env cfg) [0..<length (clients s)] s"
  have P1: "P (final r1)"
    unfolding r1_def using init by (rule for_clients_final_rule) (simp add: local len [OF init])
  show ?thesis
  proof (cases r1)
    case (Inl es)
    with P1 show ?thesis
      by (cases es) (simp add: train_round_def r1_def [symmetric])
  next
    case (Inr s1)
    with P1 have s1: "P s1" by simp
    show ?thesis
    proof (cases "aggregate_step cfg s1")
      case (Inl es)
      obtain e s2 where es: "es = (e, s2)" by (cases es)
      with Inl have "s2 = s1"
        using aggregate_step_Inl(1) [of cfg s1 e s2] by simp
      with Inr Inl es s1 show ?thesis
        by (simp add: train_round_def r1_def [symmetric])
    next
      case s2: (Inr s2)
      have P2: "P s2"
        using s2 s1 agg [OF s1] by (auto simp: aggregate_step_def split: if_splits)
      define r3 where "r3 = for_clients (eval_client env cfg) [0..<length (clients s2)] s2"
      have P3: "P (final r3)"
        unfolding r3_def using P2 by (rule for_clients_final_rule) (simp add: ev len [OF P2])
      have "final (train_round env cfg s) = final r3"
        using Inr s2 by (cases r3) (auto simp: train_round_def r1_def [symmetric] r3_def [symmetric])
      with P3 show ?thesis by simp
    qed
  qed
qed

lemma train_round_Inr_rule:
  assumes run: "train_round env cfg s = Inr s'"
    and init: "P s"
    and len: "\<And>s. P s \<Longrightarrow> length (clients s) = n"
    and local: "\<And>i s s'. i < n \<Longrightarrow> P s \<Longrightarrow> local_step env cfg i s = Inr s' \<Longrightarrow> P s'"
    and agg: "\<And>s. P s \<Longrightarrow> P (log_event (Aggregate (map itr (clients s))) s)"
    and ev: "\<And>i s s'. i < n \<Longrightarrow> P s \<Longrightarrow> eval_client env cfg i s = Inr s' \<Longrightarrow> P s'"
  shows "P s'"
proof -
  from run obtain s1 s2 s3
    where 1: "for_clients (local_step env cfg) [0..<length (clients s)] s = Inr s1"
      and 2: "aggregate_step cfg s1 = Inr s2"
      and 3: "for_clients (eval_client env cfg) [0..<length (clients s2)] s2 = Inr s3"
      and 4: "checkpoint_stub cfg s3 = Inr s'"
    by (auto simp: train_round_def split: sum.splits)
  have P1: "P s1"
    using 1 init by (rule for_clients_Inr_rule) (rule local, simp_all add: len [OF init])
  have P2: "P s2"
    using 2 P1 agg [OF P1] by (auto simp: aggregate_step_def split: if_splits)
  have P3: "P s3"
    using 3 P2 by (rule for_clients_Inr_rule) (rule ev, simp_all add: len [OF P2])
  from 4 have "s' = s3"
    using checkpoint_stub_final [of cfg s3] by simp
  with P3 show ?thesis by simp
qed

subsection \<open>Training mode and inference mode\<close>

lemma micro_events_inference [simp]:
  "list_all in_inference_mode (micro_events env cfg i s k)"
  by (induction k) (simp_all add: micro_events_def)

lemma local_step_inference:
  assumes "i < length (clients s)" and "list_all in_inference_mode (trace s)"
  shows "list_all in_inference_mode (trace (final (local_step env cfg i s)))"
    and "length (clients (final (local_step env cfg i s))) = length (clients s)"
  using assms by (simp_all add: local_step_eq gradient_step_trace split: option.splits)

lemma eval_client_inference:
  assumes "i < length (clients s)" and "list_all in_inference_mode (trace s)"
  shows "list_all in_inference_mode (trace (final (eval_client env cfg i s)))"
    and "length (clients (final (eval_client env cfg i s))) = length (clients s)"
  using assms
  by (simp_all add: eval_client_def run_eval_def Let_def nth_upd_client
      split: option.splits sum.splits)

lemma local_step_training:
  assumes "i < length (clients s)" and "local_step env cfg i s = Inr s'"
  shows "map training (clients s') = map training (clients s)"
proof -
  from assms obtain k where "s' =
      upd_client i (\<lambda>c. c\<lparr>scheduler := Some (Suc k), itr := itr c + 1\<rparr>)
        (log_event (SchedulerStep i) (gradient_step env cfg i s))"
    by (rule local_step_Inr)
  then show ?thesis
    using assms(1)
    by (simp add: map_upd_client_same gradient_step_clients map_update list_update_same_conv)
qed

lemma eval_client_training:
  assumes "i < length (clients s)" and "eval_client env cfg i s = Inr s'"
    and "list_all training (clients s)"
  shows "list_all training (clients s')" and "length (clients s') = length (clients s)"
proof -
  have tr: "\<And>j. j < length (clients s) \<Longrightarrow> training (clients s ! j)"
    using assms(3) by (simp add: list_all_length)
  from assms(2) show len: "length (clients s') = length (clients s)"
    by (auto simp: eval_client_def run_eval_def Let_def split: if_splits option.splits sum.splits)
  have "training (clients s' ! j)" if "j < length (clients s)" for j
    using assms(1,2) that tr [OF that]
    by (auto simp: eval_client_def run_eval_def Let_def nth_upd_client
        split: if_splits option.splits sum.splits)
  with len show "list_all training (clients s')"
    by (simp add: list_all_length)
qed

lemma all_training_map:
  "list_all training cs \<longleftrightarrow> map training cs = replicate (length cs) True"
  by (induction cs) auto

lemma train_round_inference:
  assumes "list_all in_inference_mode (trace s)"
  shows "list_all in_inference_mode (trace (final (train_round env cfg s)))"
    and "length (clients (final (train_round env cfg s))) = length (clients s)"
proof -
  define P where "P = (\<lambda>t :: state. length (clients t) = length (clients s)
      \<and> list_all in_inference_mode (trace t))"
  have "P (final (train_round env cfg s))"
  proof (rule train_round_final_rule [where P = P and n = "length (clients s)"])
    show "P s" using assms by (simp add: P_def)
  next
    fix t assume "P t"
    then show "length (clients t) = length (clients s)"
      and "P (log_event (Aggregate (map itr (clients t))) t)"
      by (simp_all add: P_def)
  next
    fix i t assume "i < length (clients s)" "P t"
    then have "i < length (clients t)" "list_all in_inference_mode (trace t)"
      and "length (clients t) = length (clients s)"
      by (simp_all add: P_def)
    then show "P (final (local_step env cfg i t))" and "P (final (eval_client env cfg i t))"
      using local_step_inference [of i t env cfg] eval_client_inference [of i t env cfg]
      by (simp_all add: P_def)
  qed
  then show "list_all in_inference_mode (trace (final (train_round env cfg s)))"
    and "length (clients (final (train_round env cfg s))) = length (clients s)"
    by (simp_all add: P_def)
qed

lemma train_round_training:
  assumes "train_round env cfg s = Inr s'" and "list_all training (clients s)"
  shows "list_all training (clients s')"
proof -
  define P where "P = (\<lambda>t :: state. length (clients t) = length (clients s)
      \<and> list_all training (clients t))"
  have "P s'"
  proof (rule train_round_Inr_rule [OF assms(1), where P = P and n = "length (clients s)"])
    show "P s" using assms(2) by (simp add: P_def)
  next
    fix i t t' assume "i < length (clients s)" "P t" "local_step env cfg i t = Inr t'"
    then have "map training (clients t') = map training (clients t)"
      and "length (clients t') = length (clients t)" and "P t"
      using local_step_training [of i t env cfg t'] local_step_itr(1) [of i t env cfg t']
      by (simp_all add: P_def)
    then show "P t'"
      by (simp add: P_def all_training_map)
  next
    fix i t t' assume "i < length (clients s)" "P t" "eval_client env cfg i t = Inr t'"
    then show "P t'"
      using eval_client_training [of i t env cfg t'] by (simp add: P_def)
  next
    fix t assume "P t"
    then show "length (clients t) = length (clients s)"
      and "P (log_event (Aggregate (map itr (clients t))) t)"
      by (simp_all add: P_def)
  qed
  then show ?thesis by (simp add: P_def)
qed

lemma demo_run_returns: "\<not> isl (train_loop demo_env demo_cfg (init_state demo_clients))"
  by code_simp

subsection \<open>The train loss that is recorded\<close>

lemma record_stats_train_loss [simp]:
  "train_loss (record_stats tloss res c) = train_loss c @ [tloss]"
  by (simp add: record_stats_def split: prod.splits)

lemma local_step_Inr_loss:
  assumes i: "i < length (clients s)" and ok: "local_step env cfg i s = Inr s'"
    and acc: "1 \<le> acc_steps cfg"
  shows "loss s' = Some (batch_loss env i (substep (clients s ! i) + acc_steps cfg - 1)
                          / of_int (acc_steps cfg))"
    and "j < length (clients s) \<Longrightarrow> train_loss (clients s' ! j) = train_loss (clients s ! j)"
    and "j < length (clients s) \<Longrightarrow> j \<noteq> i \<Longrightarrow>
           substep (clients s' ! j) = substep (clients s ! j)"
proof -
  from i ok obtain k where s': "s' =
      upd_client i (\<lambda>c. c\<lparr>scheduler := Some (Suc k), itr := itr c + 1\<rparr>)
        (log_event (SchedulerStep i) (gradient_step env cfg i s))"
    by (rule local_step_Inr)
  show "loss s' = Some (batch_loss env i (substep (clients s ! i) + acc_steps cfg - 1)
                          / of_int (acc_steps cfg))"
    using i acc by (simp add: s' gradient_step_loss)
  show "train_loss (clients s' ! j) = train_loss (clients s ! j)" if "j < length (clients s)"
    using that i by (simp add: s' nth_upd_client gradient_step_clients nth_list_update)
  show "substep (clients s' ! j) = substep (clients s ! j)"
    if "j < length (clients s)" "j \<noteq> i"
    using that i by (simp add: s' nth_upd_client gradient_step_clients nth_list_update)
qed

lemma eval_client_Inr_stats:
  assumes i: "i < length (clients s)" and ok: "eval_client env cfg i s = Inr s'"
    and l: "loss s = Some l"
  shows "length (clients s') = length (clients s)"
    and "loss s' = loss s"
    and "j < length (clients s) \<Longrightarrow> itr (clients s' ! j) = itr (clients s ! j)"
    and "j < length (clients s) \<Longrightarrow>
           train_loss (clients s' ! j) = train_loss (clients s ! j)
             @ (if j = i \<and> is_master env \<and> eval_due cfg (itr (clients s ! i))
                then [l * of_int (acc_steps cfg)] else [])"
proof -
  show "length (clients s') = length (clients s)"
    using ok
    by (auto simp: eval_client_def run_eval_def Let_def split: if_splits option.splits sum.splits)
  show "loss s' = loss s"
    using ok
    by (auto simp: eval_client_def run_eval_def Let_def split: if_splits option.splits sum.splits)
  show "itr (clients s' ! j) = itr (clients s ! j)" if "j < length (clients s)"
    using ok i that
    by (auto simp: eval_client_def run_eval_def Let_def nth_upd_client
        split: if_splits option.splits sum.splits)
  show "train_loss (clients s' ! j) = train_loss (clients s ! j)
      @ (if j = i \<and> is_master env \<and> eval_due cfg (itr (clients s ! i))
         then [l * of_int (acc_steps cfg)] else [])"
    if "j < length (clients s)"
    using ok i l that
    by (auto simp: eval_client_def run_eval_def Let_def nth_upd_client
        split: if_splits option.splits sum.splits)
qed


lemma local_loop_loss:
  assumes run: "for_clients (local_step env cfg) [0..<length (clients st)] st = Inr s1"
    and acc: "1 \<le> acc_steps cfg" and ne: "clients st \<noteq> []"
  shows "loss s1 = Some (batch_loss env (length (clients st) - 1)
                          (substep (last (clients st)) + acc_steps cfg - 1)
                        / of_int (acc_steps cfg))"
    and "length (clients s1) = length (clients st)"
    and "\<forall>j<length (clients st). train_loss (clients s1 ! j) = train_loss (clients st ! j)"
proof -
  define n where "n = length (clients st)"
  define P where "P = (\<lambda>k (s :: state). length (clients s) = n
      \<and> (\<forall>j<n. train_loss (clients s ! j) = train_loss (clients st ! j))
      \<and> (\<forall>j<n. k \<le> j \<longrightarrow> substep (clients s ! j) = substep (clients st ! j))
      \<and> (0 < k \<longrightarrow> loss s = Some (batch_loss env (k - 1)
              (substep (clients st ! (k - 1)) + acc_steps cfg - 1) / of_int (acc_steps cfg))))"
  have "P n s1"
  proof (rule for_clients_upt_Inr [where P = P and body = "local_step env cfg"])
    show "for_clients (local_step env cfg) [0..<n] st = Inr s1"
      using run by (simp add: n_def)
    show "P 0 st"
      by (simp add: P_def n_def)
  next
    fix k s s' assume k: "k < n" and Pk: "P k s" and ok: "local_step env cfg k s = Inr s'"
    from k Pk have ks: "k < length (clients s)" and len: "length (clients s) = n"
      by (simp_all add: P_def)
    have a: "length (clients s') = n"
      using local_step_itr(1) [OF ks ok] len by simp
    have b: "train_loss (clients s' ! j) = train_loss (clients st ! j)" if "j < n" for j
      using local_step_Inr_loss(2) [OF ks ok acc, of j] that Pk len by (simp add: P_def)
    have c: "substep (clients s' ! j) = substep (clients st ! j)" if "j < n" "Suc k \<le> j" for j
      using local_step_Inr_loss(3) [OF ks ok acc, of j] that Pk len by (simp add: P_def)
    have "substep (clients s ! k) = substep (clients st ! k)"
      using Pk k by (simp add: P_def)
    then have d: "loss s' = Some (batch_loss env k
        (substep (clients st ! k) + acc_steps cfg - 1) / of_int (acc_steps cfg))"
      using local_step_Inr_loss(1) [OF ks ok acc] by simp
    from a b c d show "P (Suc k) s'"
      by (simp add: P_def)
  qed
  moreover have "0 < n"
    using ne by (simp add: n_def)
  moreover have "clients st ! (n - 1) = last (clients st)"
    using ne by (simp add: n_def last_conv_nth)
  ultimately show "loss s1 = Some (batch_loss env (length (clients st) - 1)
                          (substep (last (clients st)) + acc_steps cfg - 1)
                        / of_int (acc_steps cfg))"
    and "length (clients s1) = length (clients st)"
    and "\<forall>j<length (clients st). train_loss (clients s1 ! j) = train_loss (clients st ! j)"
    by (simp_all add: P_def n_def)
qed

lemma eval_loop_stats:
  assumes run: "for_clients (eval_client env cfg) [0..<length (clients s2)] s2 = Inr s3"
    and l: "loss s2 = Some l"
  shows "\<forall>j<length (clients s2). train_loss (clients s3 ! j) = train_loss (clients s2 ! j)
      @ (if is_master env \<and> eval_due cfg (itr (clients s2 ! j))
         then [l * of_int (acc_steps cfg)] else [])"
    and "length (clients s3) = length (clients s2)"
proof -
  define n where "n = length (clients s2)"
  define P where "P = (\<lambda>k (s :: state). length (clients s) = n \<and> loss s = Some l
      \<and> (\<forall>j<n. itr (clients s ! j) = itr (clients s2 ! j))
      \<and> (\<forall>j<n. train_loss (clients s ! j) = train_loss (clients s2 ! j)
            @ (if j < k \<and> is_master env \<and> eval_due cfg (itr (clients s2 ! j))
               then [l * of_int (acc_steps cfg)] else [])))"
  have "P n s3"
  proof (rule for_clients_upt_Inr [where P = P and body = "eval_client env cfg"])
    show "for_clients (eval_client env cfg) [0..<n] s2 = Inr s3"
      using run by (simp add: n_def)
    show "P 0 s2"
      using l by (simp add: P_def n_def)
  next
    fix k s s' assume k: "k < n" and Pk: "P k s" and ok: "eval_client env cfg k s = Inr s'"
    from k Pk have ks: "k < length (clients s)" and len: "length (clients s) = n"
      and ls: "loss s = Some l"
      by (simp_all add: P_def)
    note E = eval_client_Inr_stats [OF ks ok ls]
    have a: "length (clients s') = n" "loss s' = Some l"
      using E(1,2) len ls by simp_all
    have b: "itr (clients s' ! j) = itr (clients s2 ! j)" if "j < n" for j
      using E(3) [of j] that Pk len by (simp add: P_def)
    have ik: "itr (clients s ! k) = itr (clients s2 ! k)"
      using Pk k by (simp add: P_def)
    have c: "train_loss (clients s' ! j) = train_loss (clients s2 ! j)
        @ (if j < Suc k \<and> is_master env \<and> eval_due cfg (itr (clients s2 ! j))
           then [l * of_int (acc_steps cfg)] else [])" if "j < n" for j
    proof -
      from that Pk have old: "train_loss (clients s ! j) = train_loss (clients s2 ! j)
          @ (if j < k \<and> is_master env \<and> eval_due cfg (itr (clients s2 ! j))
             then [l * of_int (acc_steps cfg)] else [])"
        by (simp add: P_def)
      from that len have "j < length (clients s)" by simp
      from E(4) [OF this] old ik show ?thesis
        by (cases "j = k") (auto simp: less_Suc_eq)
    qed
    from a b c show "P (Suc k) s'"
      by (simp add: P_def)
  qed
  then show "\<forall>j<length (clients s2). train_loss (clients s3 ! j) = train_loss (clients s2 ! j)
      @ (if is_master env \<and> eval_due cfg (itr (clients s2 ! j))
         then [l * of_int (acc_steps cfg)] else [])"
    and "length (clients s3) = length (clients s2)"
    by (simp_all add: P_def n_def)
qed

subsection \<open>The driver\<close>

lemma demo_exp_name:
  "get_exp_name none_args
     = ''lora_lr_0.002_bs_1x1_trust_update_every_2_lora_rank_8_alpha_32.0_dropout_0.1_seed=0''"
  by code_simp

lemma cos_zero_exp_name: "get_exp_name cos_zero_args = get_exp_name none_args"
  by (simp add: get_exp_name_def cos_zero_args_def none_args_def demo_cfg_def)

lemma demo_ckpt_path:
  "ckpt_path none_args
     = ''exps/agnews/lora/lora_lr_0.002_bs_1x1_trust_update_every_2_lora_rank_8_alpha_32.0_dropout_0.1_seed=0''"
  by code_simp

lemma demo_summary_path:
  "py_join (ckpt_path none_args) ''summary.json''
     = ''exps/agnews/lora/lora_lr_0.002_bs_1x1_trust_update_every_2_lora_rank_8_alpha_32.0_dropout_0.1_seed=0/summary.json''"
  by code_simp

lemma cos_zero_ckpt_path: "ckpt_path cos_zero_args = ckpt_path none_args"
  by (simp add: ckpt_path_def cos_zero_exp_name) (simp add: cos_zero_args_def)

lemma demo_prologue:
  "prologue demo_host none_args = Inr [new_client None, new_client None]"
  by code_simp

lemma cos_zero_prologue: "prologue demo_host cos_zero_args = Inl ValueError"
  by code_simp

lemma done_files_exists: "path_exists done_files (ckpt_path none_args)"
  by (simp add: demo_ckpt_path path_exists_def done_files_def)

lemma done_files_summary: "isfile done_files (py_join (ckpt_path none_args) ''summary.json'')"
  by (simp add: demo_summary_path isfile_def done_files_def)

subsection \<open>Normalised weights\<close>

lemma sum_list_divide: "sum_list (map (\<lambda>w. w / c) ws) = sum_list ws / (c :: rat)"
  by (induction ws) (simp_all add: add_divide_distrib)

lemma weighted_lower:
  assumes "length ws = length ps" and "list_all (\<lambda>w. 0 \<le> w) ws" and "list_all (\<lambda>p. lo \<le> p) ps"
  shows "lo * sum_list ws \<le> sum_list (map (\<lambda>(w, p). w * p) (zip ws ps :: (rat \<times> rat) list))"
  using assms
proof (induction ws ps rule: list_induct2)
  case Nil
  then show ?case by simp
next
  case (Cons w ws p ps)
  then have "lo * w \<le> w * p"
    using mult_left_mono [of lo p w] by (simp add: mult.commute)
  with Cons show ?case
    by (simp add: distrib_left)
qed

lemma weighted_upper:
  assumes "length ws = length ps" and "list_all (\<lambda>w. 0 \<le> w) ws" and "list_all (\<lambda>p. p \<le> hi) ps"
  shows "sum_list (map (\<lambda>(w, p). w * p) (zip ws ps :: (rat \<times> rat) list)) \<le> hi * sum_list ws"
  using assms
proof (induction ws ps rule: list_induct2)
  case Nil
  then show ?case by simp
next
  case (Cons w ws p ps)
  then have "w * p \<le> hi * w"
    using mult_left_mono [of p hi w] by (simp add: mult.commute)
  with Cons show ?case
    by (simp add: distrib_left)
qed

lemma trust_row_weights:
  assumes "list_all (\<lambda>l. 0 \<le> policy l) losses" and "0 < sum_list (map policy losses)"
  shows "list_all (\<lambda>w. 0 \<le> w) (trust_row policy losses)"
    and "sum_list (trust_row policy losses) = 1"
    and "length (trust_row policy losses) = length losses"
proof -
  let ?raw = "map policy losses"
  have row: "trust_row policy losses = map (\<lambda>w. w / sum_list ?raw) ?raw"
    by (simp add: trust_row_def Let_def)
  show "list_all (\<lambda>w. 0 \<le> w) (trust_row policy losses)"
    using assms by (simp add: row list_all_iff)
  show "sum_list (trust_row policy losses) = 1"
    using assms(2) by (simp only: row sum_list_divide) simp
  show "length (trust_row policy losses) = length losses"
    by (simp add: row)
qed

subsection \<open>Runs that return\<close>

lemma train_lora_returned:
  assumes "train_lora env cfg cs = Inr res" and "0 \<le> iterations cfg"
  shows "\<exists>st. train_loop env cfg (init_state cs) = Inr st \<and> res = stats_of st \<and> cs \<noteq> []
      \<and> itr (last (clients st)) = iterations cfg
      \<and> map itr (clients st) = replicate (length cs) (iterations cfg)
      \<and> (\<forall>s s'. train_round env cfg s = Inr s' \<longrightarrow>
            map itr (clients s') = map (\<lambda>r. r + 1) (map itr (clients s)))"
proof -
  from assms(1) obtain st where run: "train_loop env cfg (init_state cs) = Inr st"
    and res: "res = stats_of st"
    by (auto simp: train_lora_def run_lora_def Let_def split: sum.splits if_splits option.splits)
  define I where "I = (\<lambda>s :: state. \<exists>r. 0 \<le> r \<and> r \<le> iterations cfg
      \<and> map itr (clients s) = replicate (length cs) r)"
  have "I st \<and> clients st \<noteq> [] \<and> iterations cfg \<le> itr (last (clients st))"
  proof (rule train_loop_Inr_rule [OF run, where I = I])
    show "I (init_state cs)"
      unfolding I_def using assms(2) by (intro exI [of _ 0]) (simp add: init_state_itr)
  next
    fix s s'
    assume "I s" and ne: "clients s \<noteq> []" and guard: "itr (last (clients s)) < iterations cfg"
      and ok: "train_round env cfg s = Inr s'"
    then obtain r where r: "0 \<le> r" and its: "map itr (clients s) = replicate (length cs) r"
      by (auto simp: I_def)
    have "r < iterations cfg"
      using guard last_itr_replicate(1) [OF ne its] by simp
    moreover have "map itr (clients s') = replicate (length cs) (r + 1)"
      using train_round_itr [OF ok] its by simp
    ultimately show "I s'"
      unfolding I_def using r by (intro exI [of _ "r + 1"]) simp
  qed
  then obtain r where r: "r \<le> iterations cfg"
    and its: "map itr (clients st) = replicate (length cs) r"
    and ne: "clients st \<noteq> []" and stop: "iterations cfg \<le> itr (last (clients st))"
    by (auto simp: I_def)
  have last: "itr (last (clients st)) = r"
    by (rule last_itr_replicate(1) [OF ne its])
  with r stop have "r = iterations cfg"
    by simp
  moreover have "cs \<noteq> []"
    using last_itr_replicate(2) [OF ne its] by simp
  moreover have "\<forall>s s'. train_round env cfg s = Inr s' \<longrightarrow>
      map itr (clients s') = map (\<lambda>r. r + 1) (map itr (clients s))"
    by (simp add: train_round_itr)
  ultimately show ?thesis
    using run res its last by simp
qed

subsection \<open>Gradients are zeroed in every round\<close>

lemma eval_client_Inr_grad:
  assumes i: "i < length (clients s)" and ok: "eval_client env cfg i s = Inr s'"
    and j: "j < length (clients s)"
  shows "grad (clients s' ! j) = (if j = i then 0 else grad (clients s ! j))"
  using ok i j
  by (auto simp: eval_client_def run_eval_def Let_def nth_upd_client
      split: if_splits option.splits sum.splits)

lemma eval_loop_zero_grad:
  assumes "for_clients (eval_client env cfg) [0..<length (clients s2)] s2 = Inr s3"
  shows "list_all (\<lambda>c. grad c = 0) (clients s3)"
proof -
  define n where "n = length (clients s2)"
  define P where "P = (\<lambda>k (s :: state). length (clients s) = n
      \<and> (\<forall>j<k. grad (clients s ! j) = 0))"
  have "P n s3"
  proof (rule for_clients_upt_Inr [where P = P and body = "eval_client env cfg"])
    show "for_clients (eval_client env cfg) [0..<n] s2 = Inr s3"
      using assms by (simp add: n_def)
    show "P 0 s2"
      by (simp add: P_def n_def)
  next
    fix k s s' assume k: "k < n" and Pk: "P k s" and ok: "eval_client env cfg k s = Inr s'"
    from k Pk have ks: "k < length (clients s)" and len: "length (clients s) = n"
      by (simp_all add: P_def)
    have "length (clients s') = n"
      using ok len
      by (auto simp: eval_client_def run_eval_def Let_def
          split: if_splits option.splits sum.splits)
    moreover have "grad (clients s' ! j) = 0" if "j < Suc k" for j
      using eval_client_Inr_grad [OF ks ok, of j] that k len Pk
      by (auto simp: P_def less_Suc_eq)
    ultimately show "P (Suc k) s'"
      by (simp add: P_def)
  qed
  then show ?thesis
    by (simp add: P_def list_all_length)
qed

lemma train_round_zero_grad:
  assumes "train_round env cfg s = Inr s'"
  shows "list_all (\<lambda>c. grad c = 0) (clients s')"
proof -
  from assms obtain s2 s3
    where 3: "for_clients (eval_client env cfg) [0..<length (clients s2)] s2 = Inr s3"
      and 4: "checkpoint_stub cfg s3 = Inr s'"
    by (auto simp: train_round_def split: sum.splits)
  from 4 have "s' = s3"
    using checkpoint_stub_final [of cfg s3] by simp
  with eval_loop_zero_grad [OF 3] show ?thesis by simp
qed

lemma train_loop_reaches_loop_top:
  assumes "train_loop env cfg (init_state cs) = Inr st"
  shows "\<exists>k. loop_top env cfg cs k st"
proof -
  define I where "I = (\<lambda>s :: state. \<exists>k. loop_top env cfg cs k s)"
  have "I st \<and> clients st \<noteq> [] \<and> iterations cfg \<le> itr (last (clients st))"
  proof (rule train_loop_Inr_rule [OF assms, where I = I])
    show "I (init_state cs)"
      unfolding I_def by (blast intro: loop_top.start)
  next
    fix s s' assume "I s" "clients s \<noteq> []" "itr (last (clients s)) < iterations cfg"
      "train_round env cfg s = Inr s'"
    then show "I s'"
      unfolding I_def by (blast intro: loop_top.next_round)
  qed
  then show ?thesis
    by (simp add: I_def)
qed

section \<open>The claims\<close>

text \<open>
  C1. In every run of the training loop, however it ends, the calls of the Trust Aggregator
  are exactly one call for every round \<open>r\<close> from 1 to the round the run has reached with
  \<open>r mod trust_freq = 0\<close> and \<open>r \<ge> pretraining_rounds - 1\<close>, in this order, and at each
  call all clients have finished their local step of the round: every counter equals \<open>r\<close>.
\<close>

theorem aggregation_trigger:
  "filter is_aggregate (trace (final (train_loop env cfg (init_state cs))))
     = aggregate_calls cfg (length cs)
         (global_round (final (train_loop env cfg (init_state cs))))"
proof (cases "cs = []")
  case True
  then show ?thesis
    by (simp add: train_loop.simps init_state_def global_round_def aggregate_calls_def)
next
  case False
  then show ?thesis
    by (rule train_loop_calls)
qed

theorem aggregation_trigger_witness:
  "filter is_aggregate (trace (final (train_loop demo_env demo_cfg (init_state demo_clients))))
     = [Aggregate [2, 2], Aggregate [4, 4]]"
proof -
  have "global_round (final (train_loop demo_env demo_cfg (init_state demo_clients))) = 4"
    by code_simp
  moreover have "aggregate_calls demo_cfg (length demo_clients) 4
      = [Aggregate [2, 2], Aggregate [4, 4]]"
    by code_simp
  ultimately show ?thesis
    using aggregation_trigger [of demo_env demo_cfg demo_clients] by simp
qed

text \<open>
  C2. For every target client, when the policy gives every source client a non-negative
  weight and some client a positive one, the normalised row of weights is non-negative and
  sums to 1, so the target's new parameter is a convex combination of the clients' current
  parameters: it lies between any bounds that hold for all of them.
\<close>

theorem trust_weights_convex:
  assumes "list_all (\<lambda>l. 0 \<le> policy l) losses" and "0 < sum_list (map policy losses)"
    and "length params = length losses"
    and "list_all (\<lambda>p. lo \<le> p) params" and "list_all (\<lambda>p. p \<le> hi) params"
  shows "list_all (\<lambda>w. 0 \<le> w) (trust_row policy losses)
    \<and> sum_list (trust_row policy losses) = 1
    \<and> lo \<le> aggregate_param policy losses params
    \<and> aggregate_param policy losses params \<le> hi"
proof -
  note W = trust_row_weights [OF assms(1,2)]
  have len: "length (trust_row policy losses) = length params"
    using W(3) assms(3) by simp
  from weighted_lower [OF len W(1) assms(4)] weighted_upper [OF len W(1) assms(5)] W(1,2)
  show ?thesis
    by (simp add: aggregate_param_def)
qed

theorem trust_weights_convex_witness:
  "list_all (\<lambda>l. 0 \<le> inverse_loss l) [1, 2, 4] \<and> 0 < sum_list (map inverse_loss [1, 2, 4])
   \<and> trust_row inverse_loss [1, 2, 4] = [4 / 7, 2 / 7, 1 / 7]
   \<and> sum_list (trust_row inverse_loss [1, 2, 4]) = 1
   \<and> aggregate_param inverse_loss [1, 2, 4] [7, 14, 0] = 8
   \<and> 0 \<le> aggregate_param inverse_loss [1, 2, 4] [7, 14, 0]
   \<and> aggregate_param inverse_loss [1, 2, 4] [7, 14, 0] \<le> 14"
proof -
  have h: "list_all (\<lambda>l. 0 \<le> inverse_loss l) [1, 2, 4]"
    "0 < sum_list (map inverse_loss [1, 2, 4])"
    "length [7, 14, 0 :: rat] = length [1, 2, 4 :: rat]"
    "list_all (\<lambda>p. 0 \<le> p) [7, 14, 0 :: rat]" "list_all (\<lambda>p. p \<le> 14) [7, 14, 0 :: rat]"
    by (simp_all add: inverse_loss_def)
  have "trust_row inverse_loss [1, 2, 4] = [4 / 7, 2 / 7, 1 / 7]"
    by (simp add: trust_row_def inverse_loss_def)
  moreover have "aggregate_param inverse_loss [1, 2, 4] [7, 14, 0] = 8"
    by (simp add: aggregate_param_def trust_row_def inverse_loss_def)
  ultimately show ?thesis
    using trust_weights_convex [OF h] h(1,2) by simp
qed

text \<open>
  C3. As stated the claim fails: with the clip value 1 and a single batch of gradient 4 the
  optimizer step consumes the clipped gradient 4000000/4000001, not the mean 4.
\<close>

theorem applied_gradient_counterexample:
  "mean_grad clip_env clip_cfg 0 0 = 4
   \<and> trace (gradient_step clip_env clip_cfg 0 (init_state demo_clients))
       = [Forward 0 0, Backward 0 4, ClipGradNorm 0 1, OptStep 0 (4000000 / 4000001)]"
  by (simp add: mean_grad_def step_defs demo_defs clip_env_def clip_cfg_def torch_clip_def)

text \<open>
  C3, amended. In the local step of a client that starts with a zeroed gradient, with
  \<^verbatim>\<open>acc_steps\<close> at least 1: the client performs exactly \<^verbatim>\<open>acc_steps\<close> microsteps, each a
  forward pass on a batch of its own train shard followed by the backward pass of that
  batch's loss divided by \<^verbatim>\<open>acc_steps\<close>, so the gradient accumulated for the optimizer step
  is the mean gradient of these batches; the optimizer step consumes this mean when the
  clip value is 0.0, and what the clipping call makes of it otherwise. Every round that
  raises nothing ends with all gradients zeroed, so every later step starts so.
\<close>

theorem accumulated_gradient_is_mean:
  assumes "i < length (clients st)" and "grad (clients st ! i) = 0" and "1 \<le> acc_steps cfg"
  shows "substep (clients (gradient_step env cfg i st) ! i)
        = substep (clients st ! i) + acc_steps cfg
    \<and> grad (clients (microsteps env cfg i (nat (acc_steps cfg)) st) ! i)
        = mean_grad env cfg i (substep (clients st ! i))
    \<and> trace (gradient_step env cfg i st) =
        trace st
        @ concat (map (\<lambda>j. [Forward i (substep (clients st ! i) + int j),
                             Backward i (batch_grad env i (substep (clients st ! i) + int j)
                                          / of_int (acc_steps cfg))])
                    [0..<nat (acc_steps cfg)])
        @ (if grad_clip cfg = 0
           then [OptStep i (mean_grad env cfg i (substep (clients st ! i)))]
           else [ClipGradNorm i (grad_clip cfg),
                 OptStep i (clip_grad_norm env
                   (mean_grad env cfg i (substep (clients st ! i))) (grad_clip cfg))])
    \<and> (\<forall>s s'. train_round env cfg s = Inr s' \<longrightarrow> list_all (\<lambda>c. grad c = 0) (clients s'))"
proof -
  let ?w = "microsteps env cfg i (nat (acc_steps cfg)) st"
  have g: "grad (clients ?w ! i) = mean_grad env cfg i (substep (clients st ! i))"
    using assms(1,2) by (simp add: microsteps_clients accumulated_mean)
  have s: "substep (clients (gradient_step env cfg i st) ! i)
      = substep (clients st ! i) + acc_steps cfg"
    using assms(1,3) by (simp add: gradient_step_clients)
  have t: "trace ?w = trace st
      @ concat (map (\<lambda>j. [Forward i (substep (clients st ! i) + int j),
                           Backward i (batch_grad env i (substep (clients st ! i) + int j)
                                        / of_int (acc_steps cfg))])
                  [0..<nat (acc_steps cfg)])"
    using assms(1) by (simp add: microsteps_trace micro_events_def)
  have z: "\<forall>s s'. train_round env cfg s = Inr s' \<longrightarrow> list_all (\<lambda>c. grad c = 0) (clients s')"
    by (simp add: train_round_zero_grad)
  from gradient_step_after_window(1) [OF assms(1), of env cfg] g s t z show ?thesis
    by simp
qed

theorem accumulated_gradient_is_mean_witness:
  "0 < length (clients (init_state demo_clients))
   \<and> grad (clients (init_state demo_clients) ! 0) = 0 \<and> 1 \<le> acc_steps acc_cfg
   \<and> mean_grad acc_env acc_cfg 0 0 = 2
   \<and> substep (clients (gradient_step acc_env acc_cfg 0 (init_state demo_clients)) ! 0) = 2
   \<and> trace (gradient_step acc_env acc_cfg 0 (init_state demo_clients))
       = [Forward 0 0, Backward 0 (1 / 2), Forward 0 1, Backward 0 (3 / 2), OptStep 0 2]"
proof -
  have h: "0 < length (clients (init_state demo_clients))"
    "grad (clients (init_state demo_clients) ! 0) = 0" "1 \<le> acc_steps acc_cfg"
    by (simp_all add: init_state_def reset_locals_def new_client_def demo_defs acc_cfg_def)
  have m: "mean_grad acc_env acc_cfg 0 0 = 2"
    by (simp add: mean_grad_def acc_env_def acc_cfg_def demo_defs numeral_2_eq_2)
  have u: "[0..<nat (acc_steps acc_cfg)] = [0, 1]"
    by (simp add: acc_cfg_def demo_defs numeral_2_eq_2)
  have "substep (clients (init_state demo_clients) ! 0) = 0"
    by (simp add: init_state_def reset_locals_def demo_defs)
  with accumulated_gradient_is_mean [OF h, of acc_env] h m u show ?thesis
    by (simp add: acc_env_def acc_cfg_def demo_defs init_state_def)
qed

text \<open>
  C4. As stated the claim fails: a run with one client and four iterations can raise in its
  first round, and then the loop is left with the counter of the last client below
  \<^verbatim>\<open>iterations\<close> and nothing is returned. Here the client has no scheduler, and the error
  is that of its first schedule step.
\<close>

theorem loop_stops_early_counterexample:
  "length [new_client None] = 1 \<and> 0 \<le> iterations demo_cfg
   \<and> isl (train_lora demo_env demo_cfg [new_client None])
   \<and> fst (projl (train_lora demo_env demo_cfg [new_client None])) = AttributeError
   \<and> map itr (clients (final (run_lora demo_env demo_cfg [new_client None]))) = [0]
   \<and> iterations demo_cfg = 4"
  by code_simp

text \<open>
  C4, amended. For a run of \<^verbatim>\<open>train_lora\<close> with a non-negative number of iterations that
  raises no error: there is at least one client, the while loop has stopped with the
  counter of the last client (and of every client) equal to \<^verbatim>\<open>iterations\<close>, and the value
  returned is the per-client metrics accumulated in the state the loop stopped in. Every
  round that raises nothing advances every counter by exactly 1.
\<close>

theorem loop_stops_at_iterations:
  assumes "0 \<le> iterations cfg"
  shows "(\<forall>res. train_lora env cfg cs = Inr res \<longrightarrow>
          (\<exists>st. train_loop env cfg (init_state cs) = Inr st \<and> res = stats_of st \<and> cs \<noteq> []
             \<and> itr (last (clients st)) = iterations cfg
             \<and> map itr (clients st) = replicate (length cs) (iterations cfg)))
    \<and> (\<forall>s s'. train_round env cfg s = Inr s' \<longrightarrow>
          map itr (clients s') = map (\<lambda>r. r + 1) (map itr (clients s)))"
proof (intro conjI allI impI)
  fix res assume "train_lora env cfg cs = Inr res"
  from train_lora_returned [OF this assms]
  show "\<exists>st. train_loop env cfg (init_state cs) = Inr st \<and> res = stats_of st \<and> cs \<noteq> []
      \<and> itr (last (clients st)) = iterations cfg
      \<and> map itr (clients st) = replicate (length cs) (iterations cfg)"
    by blast
next
  fix s s' assume "train_round env cfg s = Inr s'"
  then show "map itr (clients s') = map (\<lambda>r. r + 1) (map itr (clients s))"
    by (rule train_round_itr)
qed

theorem loop_stops_at_iterations_witness:
  "0 \<le> iterations demo_cfg
   \<and> train_lora demo_env demo_cfg demo_clients =
       Inr \<lparr>stats_train_loss = [[3, 3], [3, 3]], stats_val_loss = [[2, 2], [2, 2]],
            stats_val_pp = [[7, 7], [7, 7]], stats_val_acc = [[1, 1], [1, 1]]\<rparr>
   \<and> map itr (clients (final (train_loop demo_env demo_cfg (init_state demo_clients))))
       = replicate (length demo_clients) (iterations demo_cfg)"
proof -
  have it: "0 \<le> iterations demo_cfg"
    by (simp add: demo_cfg_def)
  from loop_stops_at_iterations [OF it, of demo_env demo_clients] demo_returns it
  show ?thesis
    by (auto simp del: replicate.simps)
qed

text \<open>
  C5. As stated the claim fails: when the evaluator raises, nothing restores training mode.
  In the small run with a failing evaluator the error of the first evaluation (client 0,
  round 2) ends the run with that client's model in inference mode.
\<close>

theorem evaluation_raises_counterexample:
  "(case train_loop fail_env demo_cfg (init_state demo_clients) of
      Inl (e, st) \<Rightarrow> e = EvalFailure \<and> map training (clients st) = [False, True]
        \<and> last (trace st) = Eval 0 2 False
    | Inr st \<Rightarrow> False)"
  by code_simp

text \<open>
  C5, amended. In every run, however it ends, every call of the evaluator finds the model
  it evaluates in inference mode; after every round whose evaluations all return, and so
  when the run returns, all models are back in training mode.
\<close>

theorem evaluation_in_inference_mode:
  "list_all in_inference_mode (trace (final (train_loop env cfg (init_state cs))))
   \<and> (\<forall>st. train_loop env cfg (init_state cs) = Inr st \<longrightarrow> list_all training (clients st))
   \<and> (\<forall>k st. loop_top env cfg cs k st \<longrightarrow> list_all training (clients st))"
proof (intro conjI)
  define Q where "Q = (\<lambda>s :: state. list_all in_inference_mode (trace s))"
  have "Q (final (train_loop env cfg (init_state cs)))"
  proof (rule train_loop_final_rule [where I = Q and Q = Q])
    show "Q (init_state cs)" by (simp add: Q_def init_state_def)
  next
    fix s s' assume "Q s" "train_round env cfg s = Inr s'"
    then show "Q s'"
      using train_round_inference(1) [of s env cfg] by (simp add: Q_def)
  next
    fix s e s' assume "Q s" "train_round env cfg s = Inl (e, s')"
    then show "Q s'"
      using train_round_inference(1) [of s env cfg] by (simp add: Q_def)
  qed
  then show "list_all in_inference_mode (trace (final (train_loop env cfg (init_state cs))))"
    by (simp add: Q_def)
next
  show "\<forall>st. train_loop env cfg (init_state cs) = Inr st \<longrightarrow> list_all training (clients st)"
  proof (intro allI impI)
    fix st assume run: "train_loop env cfg (init_state cs) = Inr st"
    define I where "I = (\<lambda>s :: state. list_all training (clients s))"
    have "I st \<and> clients st \<noteq> [] \<and> iterations cfg \<le> itr (last (clients st))"
    proof (rule train_loop_Inr_rule [OF run, where I = I])
      show "I (init_state cs)"
        by (simp add: I_def init_state_def list_all_iff)
    next
      fix s s' assume "I s" "train_round env cfg s = Inr s'"
      then show "I s'"
        using train_round_training [of env cfg s s'] by (simp add: I_def)
    qed
    then show "list_all training (clients st)"
      by (simp add: I_def)
  qed
next
  have "list_all training (clients st)" if "loop_top env cfg cs k st" for k st
    using that
  proof (induction rule: loop_top.induct)
    case start
    show ?case by (simp add: init_state_def list_all_iff)
  next
    case (next_round k st st')
    from next_round.hyps(4) next_round.IH show ?case
      by (rule train_round_training)
  qed
  then show "\<forall>k st. loop_top env cfg cs k st \<longrightarrow> list_all training (clients st)"
    by blast
qed

theorem evaluation_in_inference_mode_witness:
  "\<not> isl (train_loop demo_env demo_cfg (init_state demo_clients))
   \<and> list_all in_inference_mode
       (trace (final (train_loop demo_env demo_cfg (init_state demo_clients))))
   \<and> list_all training (clients (final (train_loop demo_env demo_cfg (init_state demo_clients))))
   \<and> Eval 0 2 False
       \<in> set (trace (final (train_loop demo_env demo_cfg (init_state demo_clients))))"
proof -
  from demo_run_returns obtain st
    where st: "train_loop demo_env demo_cfg (init_state demo_clients) = Inr st"
    by (cases "train_loop demo_env demo_cfg (init_state demo_clients)") auto
  have "Eval 0 2 False
      \<in> set (trace (final (train_loop demo_env demo_cfg (init_state demo_clients))))"
    by code_simp
  with evaluation_in_inference_mode [of demo_env demo_cfg demo_clients] st show ?thesis
    by simp
qed

text \<open>
  C6. At the top of the while loop, after \<open>k\<close> completed rounds, every entry of the list of
  per-client iteration counters equals \<open>k\<close>: the counters advance in lockstep.
\<close>

theorem counters_in_lockstep:
  "loop_top env cfg cs k st \<Longrightarrow> map itr (clients st) = replicate (length cs) (int k)"
proof (induction rule: loop_top.induct)
  case start
  show ?case by (simp add: init_state_itr)
next
  case (next_round k st st')
  from train_round_itr [OF next_round.hyps(4)] next_round.IH
  show ?case by (simp add: add.commute)
qed

theorem counters_in_lockstep_witness:
  "loop_top demo_env demo_cfg demo_clients (Suc 0)
     (final (train_round demo_env demo_cfg (init_state demo_clients)))
   \<and> map itr (clients (final (train_round demo_env demo_cfg (init_state demo_clients))))
       = replicate (length demo_clients) (int (Suc 0))"
proof -
  from demo_first_round obtain st
    where r: "train_round demo_env demo_cfg (init_state demo_clients) = Inr st" ..
  have top: "loop_top demo_env demo_cfg demo_clients (Suc 0) st"
    by (rule loop_top.next_round [OF loop_top.start _ _ r])
      (simp_all add: init_state_def demo_defs new_client_def reset_locals_def)
  from counters_in_lockstep [OF top] top r show ?thesis
    by simp
qed

text \<open>
  C7. As stated the claim fails: the schedulers are constructed before the checkpoint
  directory is looked at, and the name of the experiment holds neither the scheduler choice
  nor the number of iterations. Re-running the completed run of \<open>none_args\<close> with the
  scheduler \<^verbatim>\<open>cos\<close> and zero iterations finds the summary of that run in place and ends
  with the ValueError of \<^verbatim>\<open>OneCycleLR\<close> instead of a zero exit status.
\<close>

theorem completed_run_raises_counterexample:
  "path_exists done_files (ckpt_path cos_zero_args)
   \<and> isfile done_files (py_join (ckpt_path cos_zero_args) ''summary.json'')
   \<and> main demo_host cos_zero_args done_files = (Uncaught ValueError, done_files, [])"
  by (simp add: cos_zero_ckpt_path done_files_exists done_files_summary main_def
      cos_zero_prologue)

text \<open>
  C7, amended. If the checkpoint directory derived from results folder, dataset, model and
  experiment name exists and holds a summary file, \<^verbatim>\<open>main\<close> performs no training step and
  leaves every file as it is; it exits through \<^verbatim>\<open>sys.exit(0)\<close> whenever the run set-up
  that precedes the test of the directory raises nothing, and ends with the error of the
  set-up otherwise.
\<close>

theorem completed_run_is_skipped:
  assumes "path_exists fs (ckpt_path a)"
    and "isfile fs (py_join (ckpt_path a) ''summary.json'')"
  shows "snd (main h a fs) = (fs, [])
    \<and> (\<forall>cs. prologue h a = Inr cs \<longrightarrow> main h a fs = (SystemExit 0, fs, []))
    \<and> (\<forall>e. prologue h a = Inl e \<longrightarrow> main h a fs = (Uncaught e, fs, []))"
  using assms by (simp add: main_def split: sum.splits)

theorem completed_run_is_skipped_witness:
  "path_exists done_files (ckpt_path none_args)
   \<and> isfile done_files (py_join (ckpt_path none_args) ''summary.json'')
   \<and> prologue demo_host none_args = Inr [new_client None, new_client None]
   \<and> main demo_host none_args done_files = (SystemExit 0, done_files, [])"
proof -
  have e: "path_exists done_files (ckpt_path none_args)"
    by (rule done_files_exists)
  have f: "isfile done_files (py_join (ckpt_path none_args) ''summary.json'')"
    by (rule done_files_summary)
  from completed_run_is_skipped [OF e f, of demo_host] e f demo_prologue show ?thesis
    by simp
qed

text \<open>
  C8. In the local step of a client, after the accumulation window, the gradient norm is
  clipped exactly when the configured value is not zero, and then with that value as the
  bound; with the value 0.0 there is no clipping call and the optimizer step consumes the
  accumulated gradient as it is.
\<close>

theorem clipping_only_when_nonzero:
  assumes "i < length (clients st)"
  shows "trace (gradient_step env cfg i st) =
      trace (microsteps env cfg i (nat (acc_steps cfg)) st)
        @ (if grad_clip cfg = 0
           then [OptStep i (grad (clients (microsteps env cfg i (nat (acc_steps cfg)) st) ! i))]
           else [ClipGradNorm i (grad_clip cfg),
                 OptStep i (clip_grad_norm env
                   (grad (clients (microsteps env cfg i (nat (acc_steps cfg)) st) ! i))
                   (grad_clip cfg))])
    \<and> grad (clients (gradient_step env cfg i st) ! i) =
      (if grad_clip cfg = 0
       then grad (clients (microsteps env cfg i (nat (acc_steps cfg)) st) ! i)
       else clip_grad_norm env
              (grad (clients (microsteps env cfg i (nat (acc_steps cfg)) st) ! i))
              (grad_clip cfg))"
  using gradient_step_after_window [OF assms] by simp

theorem clipping_only_when_nonzero_witness:
  "0 < length (clients (init_state demo_clients))
   \<and> trace (gradient_step clip_env clip_cfg 0 (init_state demo_clients))
       = [Forward 0 0, Backward 0 4, ClipGradNorm 0 1, OptStep 0 (4000000 / 4000001)]
   \<and> trace (gradient_step clip_env demo_cfg 0 (init_state demo_clients))
       = [Forward 0 0, Backward 0 4, OptStep 0 4]"
proof -
  have len: "0 < length (clients (init_state demo_clients))"
    by (simp add: init_state_def demo_defs)
  from clipping_only_when_nonzero [OF len, of clip_env clip_cfg]
    clipping_only_when_nonzero [OF len, of clip_env demo_cfg] len
  show ?thesis
    by (simp add: step_defs demo_defs clip_env_def clip_cfg_def torch_clip_def)
qed

text \<open>
  C9. In a round (with \<^verbatim>\<open>acc_steps\<close> at least 1) that raises nothing, the train loss
  recorded for a client \<open>i\<close> that is evaluated is the value of the variable \<^verbatim>\<open>loss\<close> left by
  the last microstep of the last client (index \<open>num_clients - 1\<close>), multiplied by
  \<^verbatim>\<open>acc_steps\<close>: the same value for every client evaluated in the round, whatever \<open>i\<close> is. A
  client is evaluated on the master process when its counter, after the step, is a
  multiple of \<^verbatim>\<open>eval_freq\<close> or equals \<^verbatim>\<open>iterations\<close>.
\<close>

theorem train_loss_of_last_client:
  assumes "train_round env cfg st = Inr st'" and "1 \<le> acc_steps cfg"
    and "i < length (clients st)"
  shows "train_loss (clients st' ! i) = train_loss (clients st ! i)
      @ (if is_master env \<and> eval_due cfg (itr (clients st ! i) + 1)
         then [batch_loss env (length (clients st) - 1)
                 (substep (last (clients st)) + acc_steps cfg - 1)
               / of_int (acc_steps cfg) * of_int (acc_steps cfg)]
         else [])"
proof -
  from assms(1) obtain s1 s2 s3
    where 1: "for_clients (local_step env cfg) [0..<length (clients st)] st = Inr s1"
      and 2: "aggregate_step cfg s1 = Inr s2"
      and 3: "for_clients (eval_client env cfg) [0..<length (clients s2)] s2 = Inr s3"
      and 4: "checkpoint_stub cfg s3 = Inr st'"
    by (auto simp: train_round_def split: sum.splits)
  from assms(3) have ne: "clients st \<noteq> []" by auto
  define l where "l = batch_loss env (length (clients st) - 1)
      (substep (last (clients st)) + acc_steps cfg - 1) / of_int (acc_steps cfg)"
  note L = local_loop_loss [OF 1 assms(2) ne]
  from aggregate_step_Inr(1,2) [OF 2] have c2: "clients s2 = clients s1" and l2: "loss s2 = loss s1" .
  have ls2: "loss s2 = Some l"
    using L(1) l2 by (simp add: l_def)
  have len2: "length (clients s2) = length (clients st)"
    using L(2) c2 by simp
  have "map itr (clients s2) = map (\<lambda>r. r + 1) (map itr (clients st))"
    using local_loop_itr [OF 1] c2 by simp
  then have "map itr (clients s2) ! i = map (\<lambda>r. r + 1) (map itr (clients st)) ! i"
    by simp
  then have it: "itr (clients s2 ! i) = itr (clients st ! i) + 1"
    using assms(3) len2 by simp
  have tl2: "train_loss (clients s2 ! i) = train_loss (clients st ! i)"
    using L(3) assms(3) c2 by simp
  from 4 have "st' = s3"
    using checkpoint_stub_final [of cfg s3] by simp
  with eval_loop_stats(1) [OF 3 ls2] assms(3) len2 it tl2 show ?thesis
    by (simp add: l_def)
qed

theorem train_loss_of_last_client_witness:
  "\<not> isl (train_round loss_env acc_cfg after_first_round)
   \<and> 1 \<le> acc_steps acc_cfg \<and> length (clients after_first_round) = 2
   \<and> batch_loss loss_env 1 3 = 13 \<and> batch_loss loss_env 0 3 = 3
   \<and> map train_loss (clients (final (train_round loss_env acc_cfg after_first_round)))
       = [[13], [13]]"
proof -
  have ok: "\<not> isl (train_round loss_env acc_cfg after_first_round)"
    by code_simp
  then obtain st' where r: "train_round loss_env acc_cfg after_first_round = Inr st'"
    by (cases "train_round loss_env acc_cfg after_first_round") auto
  have acc: "1 \<le> acc_steps acc_cfg"
    by code_simp
  have len: "length (clients after_first_round) = 2"
    by code_simp
  have facts: "map train_loss (clients after_first_round) = [[], []]"
    "map itr (clients after_first_round) = [1, 1]"
    "substep (last (clients after_first_round)) = 2"
    "is_master loss_env" "eval_due acc_cfg 2" "acc_steps acc_cfg = 2"
    "batch_loss loss_env 1 3 = 13" "batch_loss loss_env 0 3 = 3"
    by code_simp+
  from facts(1,2) len have nth: "train_loss (clients after_first_round ! 0) = []"
    "train_loss (clients after_first_round ! 1) = []"
    "itr (clients after_first_round ! 0) = 1" "itr (clients after_first_round ! 1) = 1"
    by (simp_all add: list_eq_iff_nth_eq)
  have len': "length (clients st') = 2"
    using train_round_itr [OF r] facts(2) length_map [of itr "clients st'"] by simp
  have "train_loss (clients st' ! 0) = [13]"
    using train_loss_of_last_client [OF r acc, of 0] len facts nth by simp
  moreover have "train_loss (clients st' ! 1) = [13]"
    using train_loss_of_last_client [OF r acc, of 1] len facts nth by simp
  ultimately have "map train_loss (clients st') = [[13], [13]]"
    using len' by (simp add: list_eq_iff_nth_eq less_Suc_eq numeral_2_eq_2)
  with ok acc len facts(7,8) r show ?thesis
    by simp
qed



end
